theory Spec2Isabelle
  imports Complex_Main
begin

section \<open>Data model\<close>

text \<open>
  The TypeScript type \<open>number\<close> is the IEEE double. The functions that compute with
  numbers are given at two levels. At the first level a number is a \<^typ>\<open>real\<close> and
  arithmetic is exact; NaN and the infinities are left out. At the second level, in the
  definitions with the suffix \<open>_double\<close>, the result of every arithmetic operation is
  rounded and a number can be NaN or infinite. The first level is the second at the identity
  rounding. A value of type \<open>number | null\<close> is an option, with \<open>None\<close> for \<open>null\<close>.
\<close>

record Coordinate =
  latitude :: real
  longitude :: real

text \<open>The field \<open>id\<close> of the interface \<open>Zone\<close> is called \<open>zone_id\<close> here.\<close>

record Zone =
  zone_id :: string
  coordinates :: "Coordinate list"
  temperature :: "real option"

text \<open>The tuple type \<open>[number, number, number]\<close> of a stop's colour.\<close>

type_synonym rgb = "int \<times> int \<times> int"

record GradientStop =
  temp :: real
  color :: rgb

text \<open>
  The colour functions return CSS strings of the shape \<open>rgba(r, g, b, a)\<close>. Such a string
  is represented by the four numbers it is built from.
\<close>

datatype rgba = Rgba (red: int) (green: int) (blue: int) (alpha: real)

section \<open>Temperature to colour, gradient table\<close>

definition gradient :: "GradientStop list" where
  "gradient =
    [\<lparr>temp = -10, color = (0, 0, 139)\<rparr>,
     \<lparr>temp = -7.5, color = (0, 0, 205)\<rparr>,
     \<lparr>temp = -5, color = (0, 0, 255)\<rparr>,
     \<lparr>temp = -2.5, color = (173, 216, 230)\<rparr>,
     \<lparr>temp = 0, color = (240, 248, 255)\<rparr>,
     \<lparr>temp = 2.5, color = (255, 255, 224)\<rparr>,
     \<lparr>temp = 5, color = (255, 255, 153)\<rparr>,
     \<lparr>temp = 7.5, color = (255, 255, 0)\<rparr>,
     \<lparr>temp = 10, color = (255, 255, 0)\<rparr>,
     \<lparr>temp = 12.5, color = (204, 204, 0)\<rparr>,
     \<lparr>temp = 15, color = (255, 165, 100)\<rparr>,
     \<lparr>temp = 17.5, color = (255, 140, 0)\<rparr>,
     \<lparr>temp = 20, color = (255, 120, 0)\<rparr>,
     \<lparr>temp = 25, color = (255, 80, 80)\<rparr>,
     \<lparr>temp = 28, color = (255, 0, 0)\<rparr>,
     \<lparr>temp = 32, color = (139, 0, 0)\<rparr>,
     \<lparr>temp = 35, color = (100, 0, 0)\<rparr>]"

text \<open>
  \<open>rgbaFromColor(color, alpha = 0.5)\<close>: every call in the source leaves the second
  argument out, so the callers below pass \<open>default_alpha\<close>.
\<close>

definition default_alpha :: real where
  "default_alpha = 0.5"

definition rgbaFromColor :: "rgb \<Rightarrow> real \<Rightarrow> rgba" where
  "rgbaFromColor c a = (case c of (r, g, b) \<Rightarrow> Rgba r g b a)"

text \<open>\<open>Math.round\<close> rounds to the nearest integer, a tie going up.\<close>

definition Math_round :: "real \<Rightarrow> int" where
  "Math_round x = \<lfloor>x + 1 / 2\<rfloor>"

text \<open>The body of the \<open>if\<close> inside the loop: the colour interpolated between two stops.\<close>

definition interpolate :: "GradientStop \<Rightarrow> GradientStop \<Rightarrow> real \<Rightarrow> rgba" where
  "interpolate start end t =
    (case color start of (sr, sg, sb) \<Rightarrow>
     case color end of (er, eg, eb) \<Rightarrow>
       let factor = (t - temp start) / (temp end - temp start);
           r = Math_round (real_of_int sr + factor * real_of_int (er - sr));
           g = Math_round (real_of_int sg + factor * real_of_int (eg - sg));
           b = Math_round (real_of_int sb + factor * real_of_int (eb - sb))
       in rgbaFromColor (r, g, b) default_alpha)"

text \<open>
  The loop \<open>for (let i = 0; i < gradient.length - 1; i++)\<close>, entered at index \<open>i\<close>. It
  returns the index of the pair it stopped at and the colour, or \<open>None\<close> when it runs to
  its end without returning.
\<close>

function scan_stops :: "GradientStop list \<Rightarrow> real \<Rightarrow> nat \<Rightarrow> (nat \<times> rgba) option" where
  "scan_stops g t i =
    (if int i < int (length g) - 1 then
       (let start = g ! i; end = g ! (i + 1)
        in if t \<ge> temp start \<and> t \<le> temp end then Some (i, interpolate start end t)
           else scan_stops g t (i + 1))
     else None)"
  by pat_completeness auto
termination
  by (relation "measure (\<lambda>(g, t, i). length g - i)") auto

declare scan_stops.simps [simp del]

text \<open>The \<open>return\<close> statement of \<open>getTemperatureColor\<close> that produced the result.\<close>

datatype return_site =
  Ret_unknown | Ret_lowest | Ret_highest | Ret_interpolated nat | Ret_fallback

definition gray :: rgba where
  "gray = Rgba 128 128 128 0.3"

definition getTemperatureColor_traced :: "real option \<Rightarrow> return_site \<times> rgba" where
  "getTemperatureColor_traced temp_arg =
    (case temp_arg of
       None \<Rightarrow> (Ret_unknown, gray)
     | Some t \<Rightarrow>
        if t \<le> temp (gradient ! 0) then
          (Ret_lowest, rgbaFromColor (color (gradient ! 0)) default_alpha)
        else if t \<ge> temp (gradient ! (length gradient - 1)) then
          (Ret_highest, rgbaFromColor (color (gradient ! (length gradient - 1))) default_alpha)
        else
          (case scan_stops gradient t 0 of
             Some (i, c) \<Rightarrow> (Ret_interpolated i, c)
           | None \<Rightarrow> (Ret_fallback, gray)))"

definition getTemperatureColor :: "real option \<Rightarrow> rgba" where
  "getTemperatureColor temp_arg = snd (getTemperatureColor_traced temp_arg)"

section \<open>Temperature to colour, San Jose screen\<close>

definition getTemperatureColor_sanjose :: "real option \<Rightarrow> rgba" where
  "getTemperatureColor_sanjose temp_arg =
    (case temp_arg of
       None \<Rightarrow> Rgba 128 128 128 0.3
     | Some t \<Rightarrow>
        if t < 5 then Rgba 0 0 255 0.3
        else if t < 12 then Rgba 0 255 0 0.3
        else if t < 13 then Rgba 255 165 0 0.3
        else Rgba 255 0 0 0.3)"

section \<open>Zone grid\<close>

definition numberOfRows :: nat where
  "numberOfRows = 8"

definition numberOfColumns :: nat where
  "numberOfColumns = 6"

definition latStep :: real where
  "latStep = 0.08"

definition lonStep :: real where
  "lonStep = 0.10"

text \<open>
  The decimal digits of a counter, as the template literal \<open>`zone${zoneCount}`\<close> prints
  them.
\<close>

function string_of_nat :: "nat \<Rightarrow> string" where
  "string_of_nat n =
    (if n < 10 then [''0123456789'' ! n]
     else string_of_nat (n div 10) @ [''0123456789'' ! (n mod 10)])"
  by pat_completeness auto
termination
  by (relation "measure (\<lambda>n. n)") auto

declare string_of_nat.simps [simp del]

text \<open>
  The zone built in one pass of the inner loop body, from the loop indices and the counter
  value after \<open>zoneCount++\<close>.
\<close>

definition zone_at :: "real \<Rightarrow> real \<Rightarrow> nat \<Rightarrow> nat \<Rightarrow> nat \<Rightarrow> Zone" where
  "zone_at latStart lonStart row col zoneCount =
    (let latMin = latStart + real row * latStep;
         latMax = latStart + real (row + 1) * latStep;
         lonMin = lonStart + real col * lonStep;
         lonMax = lonStart + real (col + 1) * lonStep;
         coords =
           [\<lparr>latitude = latMin, longitude = lonMin\<rparr>,
            \<lparr>latitude = latMin, longitude = lonMax\<rparr>,
            \<lparr>latitude = latMax, longitude = lonMax\<rparr>,
            \<lparr>latitude = latMax, longitude = lonMin\<rparr>]
     in \<lparr>zone_id = ''zone'' @ string_of_nat zoneCount, coordinates = coords,
         temperature = None\<rparr>)"

text \<open>The inner loop body on the loop state: the array \<open>zones\<close> and \<open>zoneCount\<close>.\<close>

definition push_zone ::
    "real \<Rightarrow> real \<Rightarrow> nat \<Rightarrow> nat \<Rightarrow> Zone list \<times> nat \<Rightarrow> Zone list \<times> nat" where
  "push_zone latStart lonStart row col acc =
    (case acc of (zones, zoneCount) \<Rightarrow>
       let zoneCount' = zoneCount + 1
       in (zones @ [zone_at latStart lonStart row col zoneCount'], zoneCount'))"

text \<open>The two nested \<open>for\<close> loops, rows outside and columns inside.\<close>

definition generateZones :: "real \<Rightarrow> real \<Rightarrow> Zone list" where
  "generateZones latStart lonStart =
    fst (fold (\<lambda>row. fold (\<lambda>col. push_zone latStart lonStart row col) [0..<numberOfColumns])
          [0..<numberOfRows] ([], 0))"

text \<open>
  \<open>computeCentroid\<close> sums with \<open>reduce\<close> and divides by the array length. On an empty
  array both quotients are \<open>0 / 0\<close>, which is NaN in the source; that result is \<open>None\<close>
  here.
\<close>

definition computeCentroid :: "Coordinate list \<Rightarrow> Coordinate option" where
  "computeCentroid coords =
    (let total = foldl (\<lambda>acc cur. \<lparr>latitude = latitude acc + latitude cur,
                                    longitude = longitude acc + longitude cur\<rparr>)
                   \<lparr>latitude = 0, longitude = 0\<rparr> coords
     in if length coords = 0 then None
        else Some \<lparr>latitude = latitude total / real (length coords),
                   longitude = longitude total / real (length coords)\<rparr>)"

section \<open>Refreshing the zone temperatures\<close>

text \<open>
  What the weather service does with one request: \<open>fetch\<close>, \<open>response.json()\<close> or the
  access to \<open>json.hourly.temperature_2m[0]\<close> throws an error with a message, or there is a
  response with its \<open>ok\<close> flag and the first hourly temperature. The service is a
  parameter: it answers the request made for the zone at an array index, at the centroid
  the request names.
\<close>

datatype FetchResult = Rejected string | Response bool real

type_synonym WeatherProvider = "nat \<Rightarrow> Coordinate option \<Rightarrow> FetchResult"

text \<open>
  \<open>fetchTemperatureForZone\<close> counts the call first, then fetches. The result is the
  rejection message or the temperature, with the new value of the call counter.
\<close>

definition fetchTemperatureForZone ::
    "(Coordinate option \<Rightarrow> FetchResult) \<Rightarrow> Coordinate option \<Rightarrow> nat
      \<Rightarrow> (string + real) \<times> nat" where
  "fetchTemperatureForZone fetch centroid callCount =
    (let callCount' = callCount + 1
     in case fetch centroid of
          Rejected message \<Rightarrow> (Inl message, callCount')
        | Response ok v \<Rightarrow>
            if \<not> ok then (Inl ''Failed to fetch temperature'', callCount')
            else (Inr v, callCount'))"

text \<open>The callback given to \<open>zonesToUpdate.map\<close>.\<close>

definition update_zone ::
    "(Coordinate option \<Rightarrow> FetchResult) \<Rightarrow> Zone \<Rightarrow> nat \<Rightarrow> (string + Zone) \<times> nat" where
  "update_zone fetch zone callCount =
    (let centroid = computeCentroid (coordinates zone)
     in case fetchTemperatureForZone fetch centroid callCount of
          (Inl message, callCount') \<Rightarrow> (Inl message, callCount')
        | (Inr v, callCount') \<Rightarrow> (Inr (zone\<lparr>temperature := Some v\<rparr>), callCount'))"

fun update_zones ::
    "WeatherProvider \<Rightarrow> nat \<Rightarrow> Zone list \<Rightarrow> nat \<Rightarrow> (string + Zone) list \<times> nat" where
  "update_zones provider n [] callCount = ([], callCount)"
| "update_zones provider n (zone # rest) callCount =
    (case update_zone (provider n) zone callCount of
       (r, callCount') \<Rightarrow>
         (case update_zones provider (n + 1) rest callCount' of
            (rs, callCount'') \<Rightarrow> (r # rs, callCount'')))"

text \<open>
  \<open>Promise.all\<close>: the array of all values when every promise is fulfilled, a rejection
  otherwise. Of several rejections the source sees the one that settles first in time; the
  model takes the first in array order.
\<close>

fun Promise_all :: "(string + 'a) list \<Rightarrow> string + 'a list" where
  "Promise_all [] = Inr []"
| "Promise_all (Inl message # rest) = Inl message"
| "Promise_all (Inr v # rest) =
    (case Promise_all rest of Inl message \<Rightarrow> Inl message | Inr vs \<Rightarrow> Inr (v # vs))"

text \<open>
  The component state that \<open>fetchZoneTemperatures\<close> writes: the published zones, the
  loading flag, the error message and the counter behind \<open>apiCallCountRef\<close>.
\<close>

record AppState =
  zones :: "Zone list"
  loading :: bool
  error :: "string option"
  apiCallCount :: nat

text \<open>
  \<open>try\<close>: \<open>setZones(updatedZones)\<close>; \<open>catch\<close>:
  \<open>setError(err.message || 'Error fetching temperatures')\<close>; \<open>finally\<close>:
  \<open>setLoading(false)\<close>.
\<close>

definition fetchZoneTemperatures :: "WeatherProvider \<Rightarrow> Zone list \<Rightarrow> AppState \<Rightarrow> AppState" where
  "fetchZoneTemperatures provider zonesToUpdate st =
    (case update_zones provider 0 zonesToUpdate (apiCallCount st) of
       (results, callCount') \<Rightarrow>
         let st1 = st\<lparr>apiCallCount := callCount'\<rparr>;
             st2 = (case Promise_all results of
                      Inr updatedZones \<Rightarrow> st1\<lparr>zones := updatedZones\<rparr>
                    | Inl message \<Rightarrow>
                        st1\<lparr>error := Some (if message = [] then ''Error fetching temperatures''
                                            else message)\<rparr>)
         in st2\<lparr>loading := False\<rparr>)"

section \<open>Predicates of the statements\<close>

text \<open>The adjacent pair of stops at index \<open>i\<close> encloses the temperature.\<close>

definition encloses :: "GradientStop list \<Rightarrow> real \<Rightarrow> nat \<Rightarrow> bool" where
  "encloses g t i \<longleftrightarrow> i + 1 < length g \<and> temp (g ! i) \<le> t \<and> t \<le> temp (g ! (i + 1))"

text \<open>A channel value lies between the channel values of two stops.\<close>

definition between :: "int \<Rightarrow> int \<Rightarrow> int \<Rightarrow> bool" where
  "between a b x \<longleftrightarrow> min a b \<le> x \<and> x \<le> max a b"

text \<open>From \<open>x\<close> to \<open>y\<close> a channel moves in the direction from \<open>a\<close> to \<open>b\<close>, or stays.\<close>

definition toward :: "int \<Rightarrow> int \<Rightarrow> int \<Rightarrow> int \<Rightarrow> bool" where
  "toward a b x y \<longleftrightarrow> (a \<le> b \<longrightarrow> x \<le> y) \<and> (b \<le> a \<longrightarrow> y \<le> x)"

text \<open>A request fails: it is rejected, or its response is not \<open>ok\<close>.\<close>

definition fetch_fails :: "FetchResult \<Rightarrow> bool" where
  "fetch_fails r = (case r of Rejected message \<Rightarrow> True | Response ok v \<Rightarrow> \<not> ok)"

section \<open>Double arithmetic\<close>

text \<open>
  A finite double is the real number it denotes. \<open>double\<close> rounds a real to the nearest
  number with a significand of 53 bits, a tie going to the even significand: the unit in
  the last place of \<open>x\<close> is \<open>2 powi (exponent \<bar>x\<bar> - 52)\<close>, where
  \<open>2 powi exponent a \<le> a < 2 powi (exponent a + 1)\<close>. Overflow to an infinity and the
  subnormal numbers are left out; no value of the statements below comes near them.
\<close>

definition round_even :: "real \<Rightarrow> int" where
  "round_even y =
    (let f = \<lfloor>y\<rfloor>; d = y - real_of_int f
     in if d < 1 / 2 then f else if d > 1 / 2 then f + 1
        else if even f then f else f + 1)"

text \<open>
  The search for the exponent, upward or downward from \<open>e\<close>, for at most \<open>n\<close> steps.
\<close>

fun binade :: "nat \<Rightarrow> real \<Rightarrow> int \<Rightarrow> int" where
  "binade 0 a e = e"
| "binade (Suc n) a e =
    (if a \<ge> 2 powi (e + 1) then binade n a (e + 1)
     else if a < 2 powi e then binade n a (e - 1)
     else e)"

definition exponent :: "real \<Rightarrow> int" where
  "exponent a = binade 2200 a 0"

definition double :: "real \<Rightarrow> real" where
  "double x =
    (if x = 0 then 0
     else let u = 2 powi (exponent \<bar>x\<bar> - 52)
          in real_of_int (round_even (x / u)) * u)"

text \<open>
  The definitions below take the rounding as the parameter \<open>rnd\<close>: \<open>double\<close> is the
  arithmetic of the source, the identity is exact arithmetic. What the statements need of a
  rounding is that it leaves the half-integers of magnitude up to \<open>2 ^ 52\<close> as they are,
  as \<open>double\<close> does.
\<close>

definition exact_on_half_integers :: "(real \<Rightarrow> real) \<Rightarrow> bool" where
  "exact_on_half_integers rnd \<longleftrightarrow>
     (\<forall>n::int. \<bar>n\<bar> \<le> 2 ^ 53 \<longrightarrow> rnd (real_of_int n / 2) = real_of_int n / 2)"

text \<open>
  A value of type \<open>number\<close>. The comparisons \<open><=\<close> and \<open>>=\<close> with a finite right-hand
  side are false for NaN.
\<close>

datatype number = NaN | NegInfinity | PosInfinity | Num real

definition number_le :: "number \<Rightarrow> real \<Rightarrow> bool" where
  "number_le x b =
    (case x of NaN \<Rightarrow> False | NegInfinity \<Rightarrow> True | PosInfinity \<Rightarrow> False | Num a \<Rightarrow> a \<le> b)"

definition number_ge :: "number \<Rightarrow> real \<Rightarrow> bool" where
  "number_ge x b =
    (case x of NaN \<Rightarrow> False | NegInfinity \<Rightarrow> False | PosInfinity \<Rightarrow> True | Num a \<Rightarrow> a \<ge> b)"

text \<open>
  The test \<open>temp >= start.temp && temp <= end.temp\<close> of the loop. It holds for a finite
  number only, and then gives that number.
\<close>

definition enclosed_value :: "number \<Rightarrow> real \<Rightarrow> real \<Rightarrow> real option" where
  "enclosed_value x lo hi =
    (if number_ge x lo \<and> number_le x hi then (case x of Num t \<Rightarrow> Some t | _ \<Rightarrow> None)
     else None)"

text \<open>
  The interpolation with every subtraction, division, multiplication and addition rounded.
  The temperatures and channels of the stops are literals that are doubles already.
  \<open>Math.round\<close> is exact on a double.
\<close>

definition interpolate_double ::
    "(real \<Rightarrow> real) \<Rightarrow> GradientStop \<Rightarrow> GradientStop \<Rightarrow> real \<Rightarrow> rgba" where
  "interpolate_double rnd start end t =
    (case color start of (sr, sg, sb) \<Rightarrow>
     case color end of (er, eg, eb) \<Rightarrow>
       let factor = rnd (rnd (t - temp start) / rnd (temp end - temp start));
           r = Math_round (rnd (real_of_int sr
                 + rnd (factor * rnd (real_of_int er - real_of_int sr))));
           g = Math_round (rnd (real_of_int sg
                 + rnd (factor * rnd (real_of_int eg - real_of_int sg))));
           b = Math_round (rnd (real_of_int sb
                 + rnd (factor * rnd (real_of_int eb - real_of_int sb))))
       in rgbaFromColor (r, g, b) default_alpha)"

function scan_stops_double ::
    "(real \<Rightarrow> real) \<Rightarrow> GradientStop list \<Rightarrow> number \<Rightarrow> nat \<Rightarrow> (nat \<times> rgba) option" where
  "scan_stops_double rnd g x i =
    (if int i < int (length g) - 1 then
       (let start = g ! i; end = g ! (i + 1)
        in case enclosed_value x (temp start) (temp end) of
             Some t \<Rightarrow> Some (i, interpolate_double rnd start end t)
           | None \<Rightarrow> scan_stops_double rnd g x (i + 1))
     else None)"
  by pat_completeness auto
termination
  by (relation "measure (\<lambda>(rnd, g, x, i). length g - i)") auto

declare scan_stops_double.simps [simp del]

definition getTemperatureColor_double_traced ::
    "(real \<Rightarrow> real) \<Rightarrow> number option \<Rightarrow> return_site \<times> rgba" where
  "getTemperatureColor_double_traced rnd temp_arg =
    (case temp_arg of
       None \<Rightarrow> (Ret_unknown, gray)
     | Some x \<Rightarrow>
        if number_le x (temp (gradient ! 0)) then
          (Ret_lowest, rgbaFromColor (color (gradient ! 0)) default_alpha)
        else if number_ge x (temp (gradient ! (length gradient - 1))) then
          (Ret_highest, rgbaFromColor (color (gradient ! (length gradient - 1))) default_alpha)
        else
          (case scan_stops_double rnd gradient x 0 of
             Some (i, c) \<Rightarrow> (Ret_interpolated i, c)
           | None \<Rightarrow> (Ret_fallback, gray)))"

definition getTemperatureColor_double :: "(real \<Rightarrow> real) \<Rightarrow> number option \<Rightarrow> rgba" where
  "getTemperatureColor_double rnd temp_arg = snd (getTemperatureColor_double_traced rnd temp_arg)"

text \<open>
  The grid with rounded arithmetic. The literals \<open>0.08\<close> and \<open>0.10\<close> are rounded when
  they are read; the loop counters are small integers, which are exact.
\<close>

definition latStep_double :: "(real \<Rightarrow> real) \<Rightarrow> real" where
  "latStep_double rnd = rnd 0.08"

definition lonStep_double :: "(real \<Rightarrow> real) \<Rightarrow> real" where
  "lonStep_double rnd = rnd 0.10"

definition zone_at_double :: "(real \<Rightarrow> real) \<Rightarrow> real \<Rightarrow> real \<Rightarrow> nat \<Rightarrow> nat \<Rightarrow> nat \<Rightarrow> Zone" where
  "zone_at_double rnd latStart lonStart row col zoneCount =
    (let latMin = rnd (latStart + rnd (real row * latStep_double rnd));
         latMax = rnd (latStart + rnd (real (row + 1) * latStep_double rnd));
         lonMin = rnd (lonStart + rnd (real col * lonStep_double rnd));
         lonMax = rnd (lonStart + rnd (real (col + 1) * lonStep_double rnd));
         coords =
           [\<lparr>latitude = latMin, longitude = lonMin\<rparr>,
            \<lparr>latitude = latMin, longitude = lonMax\<rparr>,
            \<lparr>latitude = latMax, longitude = lonMax\<rparr>,
            \<lparr>latitude = latMax, longitude = lonMin\<rparr>]
     in \<lparr>zone_id = ''zone'' @ string_of_nat zoneCount, coordinates = coords,
         temperature = None\<rparr>)"

definition push_zone_double ::
    "(real \<Rightarrow> real) \<Rightarrow> real \<Rightarrow> real \<Rightarrow> nat \<Rightarrow> nat \<Rightarrow> Zone list \<times> nat \<Rightarrow> Zone list \<times> nat" where
  "push_zone_double rnd latStart lonStart row col acc =
    (case acc of (zs, zoneCount) \<Rightarrow>
       let zoneCount' = zoneCount + 1
       in (zs @ [zone_at_double rnd latStart lonStart row col zoneCount'], zoneCount'))"

definition generateZones_double :: "(real \<Rightarrow> real) \<Rightarrow> real \<Rightarrow> real \<Rightarrow> Zone list" where
  "generateZones_double rnd latStart lonStart =
    fst (fold (\<lambda>row. fold (\<lambda>col. push_zone_double rnd latStart lonStart row col)
                 [0..<numberOfColumns])
          [0..<numberOfRows] ([], 0))"

text \<open>
  The centroid with every addition of the \<open>reduce\<close> and both divisions rounded.
\<close>

definition computeCentroid_double :: "(real \<Rightarrow> real) \<Rightarrow> Coordinate list \<Rightarrow> Coordinate option" where
  "computeCentroid_double rnd coords =
    (let total = foldl (\<lambda>acc cur. \<lparr>latitude = rnd (latitude acc + latitude cur),
                                    longitude = rnd (longitude acc + longitude cur)\<rparr>)
                   \<lparr>latitude = 0, longitude = 0\<rparr> coords
     in if length coords = 0 then None
        else Some \<lparr>latitude = rnd (latitude total / real (length coords)),
                   longitude = rnd (longitude total / real (length coords))\<rparr>)"

text \<open>
  Side conditions on reals and stops: a half-integer of small magnitude, and a stop with
  such a temperature and channels of magnitude up to 255.
\<close>

definition half_integer :: "real \<Rightarrow> bool" where
  "half_integer x \<longleftrightarrow> 2 * x \<in> \<int> \<and> \<bar>x\<bar> \<le> 2 ^ 20"

definition plain_stop :: "GradientStop \<Rightarrow> bool" where
  "plain_stop s \<longleftrightarrow> half_integer (temp s)
     \<and> (case color s of (r, g, b) \<Rightarrow> \<bar>r\<bar> \<le> 255 \<and> \<bar>g\<bar> \<le> 255 \<and> \<bar>b\<bar> \<le> 255)"

section \<open>The scan over the stops\<close>

lemma scan_stops_Some:
  "scan_stops g t i = Some (j, c) \<Longrightarrow>
     i \<le> j \<and> encloses g t j \<and> c = interpolate (g ! j) (g ! (j + 1)) t
     \<and> (\<forall>k. i \<le> k \<and> k < j \<longrightarrow> \<not> encloses g t k)"
proof (induction g t i rule: scan_stops.induct)
  case (1 g t i)
  show ?case
  proof (cases "encloses g t i")
    case True
    with "1.prems" show ?thesis
      by (auto simp: scan_stops.simps [of g t i] encloses_def Let_def split: if_splits)
  next
    case False
    from "1.prems" have lt: "int i < int (length g) - 1"
      by (simp add: scan_stops.simps [of g t i] split: if_splits)
    with False have no: "\<not> (temp (g ! i) \<le> t \<and> t \<le> temp (g ! (i + 1)))"
      by (auto simp: encloses_def)
    with lt "1.prems" have rec: "scan_stops g t (i + 1) = Some (j, c)"
      by (auto simp: scan_stops.simps [of g t i] Let_def split: if_splits)
    from "1.IH" [OF lt refl refl no rec]
    have ih: "i + 1 \<le> j \<and> encloses g t j \<and> c = interpolate (g ! j) (g ! (j + 1)) t
      \<and> (\<forall>k. i + 1 \<le> k \<and> k < j \<longrightarrow> \<not> encloses g t k)" .
    have "\<not> encloses g t k" if "i \<le> k \<and> k < j" for k
    proof (cases "k = i")
      case True
      with False show ?thesis by simp
    next
      case False
      with that ih show ?thesis by auto
    qed
    with ih show ?thesis by auto
  qed
qed

lemma scan_stops_None:
  "scan_stops g t i = None \<Longrightarrow> i \<le> k \<Longrightarrow> \<not> encloses g t k"
proof (induction g t i rule: scan_stops.induct)
  case (1 g t i)
  show ?case
  proof (cases "int i < int (length g) - 1")
    case False
    with "1.prems" show ?thesis by (auto simp: encloses_def)
  next
    case lt: True
    with "1.prems" have no: "\<not> (temp (g ! i) \<le> t \<and> t \<le> temp (g ! (i + 1)))"
      by (auto simp: scan_stops.simps [of g t i] Let_def split: if_splits)
    with lt "1.prems" have rec: "scan_stops g t (i + 1) = None"
      by (auto simp: scan_stops.simps [of g t i] Let_def split: if_splits)
    show ?thesis
    proof (cases "k = i")
      case True
      with no show ?thesis by (auto simp: encloses_def)
    next
      case False
      with "1.prems" have "i + 1 \<le> k" by simp
      from "1.IH" [OF lt refl refl no rec this] show ?thesis .
    qed
  qed
qed

text \<open>
  A temperature between the first and the last stop is enclosed by some adjacent pair,
  whatever the order of the stops.
\<close>

lemma some_pair_encloses:
  assumes "temp (g ! 0) \<le> t" and "t \<le> temp (g ! (length g - 1))" and "2 \<le> length g"
  shows "\<exists>k. encloses g t k"
proof -
  define P where "P j \<longleftrightarrow> j < length g \<and> 0 < j \<and> t \<le> temp (g ! j)" for j
  from assms have "P (length g - 1)" by (auto simp: P_def)
  then have ex: "\<exists>j. P j" ..
  define m where "m = (LEAST j. P j)"
  from ex have Pm: "P m" unfolding m_def by (rule LeastI_ex)
  have least: "\<not> P j" if "j < m" for j
    using that not_less_Least unfolding m_def by blast
  from Pm obtain k where k: "m = Suc k" by (cases m) (auto simp: P_def)
  have "temp (g ! k) \<le> t"
  proof (cases "k = 0")
    case True
    with assms show ?thesis by simp
  next
    case False
    from least [of k] k have "\<not> P k" by simp
    with False Pm k show ?thesis by (auto simp: P_def)
  qed
  with Pm k have "encloses g t k" by (auto simp: encloses_def P_def)
  then show ?thesis ..
qed

section \<open>Facts about the gradient table\<close>

lemma length_gradient: "length gradient = 17"
  by (simp add: gradient_def)

lemma gradient_sorted: "sorted_wrt (<) (map temp gradient)"
  by (simp add: gradient_def)

lemma gradient_temp_less:
  "i < j \<Longrightarrow> j < length gradient \<Longrightarrow> temp (gradient ! i) < temp (gradient ! j)"
  using sorted_wrt_nth_less [OF gradient_sorted, of i j] by simp

lemma gradient_temp_le:
  "i \<le> j \<Longrightarrow> j < length gradient \<Longrightarrow> temp (gradient ! i) \<le> temp (gradient ! j)"
  using gradient_temp_less [of i j] by (cases "i = j") simp_all

lemma Math_round_of_int: "Math_round (real_of_int n) = n"
  by (simp add: Math_round_def)

lemma Math_round_mono: "x \<le> y \<Longrightarrow> Math_round x \<le> Math_round y"
  by (simp add: Math_round_def floor_mono)

lemma interpolate_at_start:
  "interpolate start end (temp start) = rgbaFromColor (color start) default_alpha"
  by (simp add: interpolate_def Math_round_of_int split: prod.splits)

lemma interpolate_at_end:
  "temp start < temp end \<Longrightarrow>
   interpolate start end (temp end) = rgbaFromColor (color end) default_alpha"
  by (simp add: interpolate_def Math_round_of_int split: prod.splits)

lemma interpolate_channels:
  "interpolate start end t =
     Rgba (Math_round (real_of_int (fst (color start))
             + (t - temp start) / (temp end - temp start)
               * real_of_int (fst (color end) - fst (color start))))
          (Math_round (real_of_int (fst (snd (color start)))
             + (t - temp start) / (temp end - temp start)
               * real_of_int (fst (snd (color end)) - fst (snd (color start)))))
          (Math_round (real_of_int (snd (snd (color start)))
             + (t - temp start) / (temp end - temp start)
               * real_of_int (snd (snd (color end)) - snd (snd (color start)))))
          0.5"
  by (simp add: interpolate_def rgbaFromColor_def default_alpha_def split: prod.splits)

lemma encloses_twice:
  assumes "encloses gradient t i" and "encloses gradient t j" and "i < j"
  shows "j = i + 1 \<and> t = temp (gradient ! j)"
proof -
  from assms have b: "i + 1 < length gradient" "j + 1 < length gradient"
    and le: "t \<le> temp (gradient ! (i + 1))" "temp (gradient ! j) \<le> t"
    by (auto simp: encloses_def)
  have "j = i + 1"
  proof (rule ccontr)
    assume "j \<noteq> i + 1"
    with \<open>i < j\<close> have "i + 1 < j" by simp
    with b have "temp (gradient ! (i + 1)) < temp (gradient ! j)"
      by (simp add: gradient_temp_less)
    with le show False by simp
  qed
  with le show ?thesis by simp
qed

lemma interpolate_any_enclosing:
  assumes "encloses gradient t i" and "encloses gradient t j"
  shows "interpolate (gradient ! i) (gradient ! (i + 1)) t
       = interpolate (gradient ! j) (gradient ! (j + 1)) t"
proof -
  have aux: "interpolate (gradient ! a) (gradient ! (a + 1)) t
       = interpolate (gradient ! b) (gradient ! (b + 1)) t"
    if "encloses gradient t a" "encloses gradient t b" "a < b" for a b
  proof -
    from encloses_twice [OF that] have b: "b = a + 1" and t: "t = temp (gradient ! b)"
      by simp_all
    from that have "b < length gradient" by (simp add: encloses_def)
    with b have "temp (gradient ! a) < temp (gradient ! (a + 1))"
      by (simp add: gradient_temp_less)
    then show ?thesis
      using b t by (simp add: interpolate_at_start interpolate_at_end)
  qed
  consider "i < j" | "i = j" | "j < i" by linarith
  then show ?thesis
    using aux [of i j] aux [of j i] assms by cases simp_all
qed

lemma traced_inside:
  assumes "temp (gradient ! 0) < t" and "t < temp (gradient ! (length gradient - 1))"
  shows "\<exists>j. encloses gradient t j
     \<and> (\<forall>k < j. \<not> encloses gradient t k)
     \<and> getTemperatureColor_traced (Some t)
       = (Ret_interpolated j, interpolate (gradient ! j) (gradient ! (j + 1)) t)"
proof -
  have "\<exists>k. encloses gradient t k"
    using some_pair_encloses [of gradient t] assms by (simp add: length_gradient)
  then obtain k where k: "encloses gradient t k" ..
  have "scan_stops gradient t 0 \<noteq> None"
  proof
    assume "scan_stops gradient t 0 = None"
    from scan_stops_None [OF this, of k] k show False by simp
  qed
  then obtain j c where jc: "scan_stops gradient t 0 = Some (j, c)"
    by (cases "scan_stops gradient t 0") auto
  from scan_stops_Some [OF jc] assms jc show ?thesis
    by (auto simp: getTemperatureColor_traced_def)
qed

lemma color_inside:
  assumes "temp (gradient ! 0) < t" and "t < temp (gradient ! (length gradient - 1))"
    and "encloses gradient t i"
  shows "getTemperatureColor (Some t) = interpolate (gradient ! i) (gradient ! (i + 1)) t"
proof -
  from traced_inside [OF assms(1,2)] obtain j where "encloses gradient t j"
    and "getTemperatureColor_traced (Some t)
       = (Ret_interpolated j, interpolate (gradient ! j) (gradient ! (j + 1)) t)"
    by blast
  then show ?thesis
    using interpolate_any_enclosing [of t j i] assms(3)
    by (simp add: getTemperatureColor_def)
qed

lemma strictly_between_stops:
  assumes "i + 1 < length gradient" and "temp (gradient ! i) < t"
    and "t < temp (gradient ! (i + 1))"
  shows "temp (gradient ! 0) < t \<and> t < temp (gradient ! (length gradient - 1))
    \<and> encloses gradient t i"
proof -
  from assms(1) have "temp (gradient ! 0) \<le> temp (gradient ! i)"
    by (simp add: gradient_temp_le)
  moreover from assms(1)
  have "temp (gradient ! (i + 1)) \<le> temp (gradient ! (length gradient - 1))"
    by (intro gradient_temp_le) simp_all
  ultimately show ?thesis
    using assms by (simp add: encloses_def)
qed

lemma channel_between:
  assumes "0 \<le> f" and "f \<le> 1"
  shows "between s e (Math_round (real_of_int s + f * real_of_int (e - s)))"
proof (cases "s \<le> e")
  case True
  then have d: "0 \<le> real_of_int (e - s)" by simp
  from assms d have "0 \<le> f * real_of_int (e - s)" by simp
  moreover from assms d have "f * real_of_int (e - s) \<le> 1 * real_of_int (e - s)"
    by (intro mult_right_mono) simp_all
  ultimately have "real_of_int s \<le> real_of_int s + f * real_of_int (e - s)"
    and "real_of_int s + f * real_of_int (e - s) \<le> real_of_int e"
    by simp_all
  then have "Math_round (real_of_int s) \<le> Math_round (real_of_int s + f * real_of_int (e - s))"
    and "Math_round (real_of_int s + f * real_of_int (e - s)) \<le> Math_round (real_of_int e)"
    by (simp_all only: Math_round_mono)
  with True show ?thesis
    by (simp add: between_def Math_round_of_int)
next
  case False
  then have d: "real_of_int (e - s) \<le> 0" by simp
  from assms d have "f * real_of_int (e - s) \<le> 0"
    by (simp add: mult_nonneg_nonpos)
  moreover from assms d have "1 * real_of_int (e - s) \<le> f * real_of_int (e - s)"
    by (intro mult_right_mono_neg) simp_all
  ultimately have "real_of_int s + f * real_of_int (e - s) \<le> real_of_int s"
    and "real_of_int e \<le> real_of_int s + f * real_of_int (e - s)"
    by simp_all
  then have "Math_round (real_of_int s + f * real_of_int (e - s)) \<le> Math_round (real_of_int s)"
    and "Math_round (real_of_int e) \<le> Math_round (real_of_int s + f * real_of_int (e - s))"
    by (simp_all only: Math_round_mono)
  with False show ?thesis
    by (simp add: between_def Math_round_of_int)
qed

lemma channel_toward:
  assumes "f1 \<le> f2"
  shows "toward s e (Math_round (real_of_int s + f1 * real_of_int (e - s)))
                    (Math_round (real_of_int s + f2 * real_of_int (e - s)))"
proof -
  have up: "Math_round (real_of_int s + f1 * real_of_int (e - s))
       \<le> Math_round (real_of_int s + f2 * real_of_int (e - s))" if "s \<le> e"
  proof -
    from that have "0 \<le> real_of_int (e - s)" by simp
    with assms have "f1 * real_of_int (e - s) \<le> f2 * real_of_int (e - s)"
      by (rule mult_right_mono)
    then show ?thesis by (intro Math_round_mono) simp
  qed
  have down: "Math_round (real_of_int s + f2 * real_of_int (e - s))
       \<le> Math_round (real_of_int s + f1 * real_of_int (e - s))" if "e \<le> s"
  proof -
    from that have "real_of_int (e - s) \<le> 0" by simp
    with assms have "f2 * real_of_int (e - s) \<le> f1 * real_of_int (e - s)"
      by (rule mult_right_mono_neg)
    then show ?thesis by (intro Math_round_mono) simp
  qed
  from up down show ?thesis by (simp add: toward_def)
qed

lemma traced_at_2_5:
  "getTemperatureColor_traced (Some 2.5) = (Ret_interpolated 4, Rgba 255 255 224 0.5)"
  by (simp add: getTemperatureColor_traced_def scan_stops.simps gradient_def interpolate_def
      rgbaFromColor_def default_alpha_def Math_round_def)

lemma traced_at_20:
  "getTemperatureColor_traced (Some 20) = (Ret_interpolated 11, Rgba 255 120 0 0.5)"
  by (simp add: getTemperatureColor_traced_def scan_stops.simps gradient_def interpolate_def
      rgbaFromColor_def default_alpha_def Math_round_def)

section \<open>Facts about the zone grid\<close>

lemma columns_loop:
  "fold (\<lambda>col. push_zone la lo row col) [0..<n] (zs, c)
     = (zs @ map (\<lambda>col. zone_at la lo row col (c + col + 1)) [0..<n], c + n)"
  by (induction n) (simp_all add: push_zone_def)

lemma upt_shift: "[a..<a + b] = map (\<lambda>i. a + i) [0..<b]"
  by (induction b) simp_all

lemma upt_block: "[0..<a + b] = [0..<a] @ map (\<lambda>i. a + i) [0..<b]"
proof -
  have "[0..<a + b] = [0..<a] @ [a..<a + b]"
    by (rule upt_add_eq_append) simp
  then show ?thesis
    by (simp only: upt_shift)
qed

lemma rows_loop:
  assumes "0 < cols"
  shows "fold (\<lambda>row. fold (\<lambda>col. push_zone la lo row col) [0..<cols]) [0..<m] (zs, c)
     = (zs @ map (\<lambda>k. zone_at la lo (k div cols) (k mod cols) (c + k + 1)) [0..<m * cols],
        c + m * cols)"
proof (induction m)
  case 0
  show ?case by simp
next
  case (Suc m)
  have block: "map (\<lambda>k. zone_at la lo (k div cols) (k mod cols) (c + k + 1))
        (map (\<lambda>i. m * cols + i) [0..<cols])
      = map (\<lambda>col. zone_at la lo m col (c + m * cols + col + 1)) [0..<cols]"
    using assms by (simp add: add.assoc)
  have "fold (\<lambda>row. fold (\<lambda>col. push_zone la lo row col) [0..<cols]) [0..<Suc m] (zs, c)
      = fold (\<lambda>col. push_zone la lo m col) [0..<cols]
          (zs @ map (\<lambda>k. zone_at la lo (k div cols) (k mod cols) (c + k + 1)) [0..<m * cols],
           c + m * cols)"
    by (simp add: Suc.IH)
  also have "\<dots> = ((zs @ map (\<lambda>k. zone_at la lo (k div cols) (k mod cols) (c + k + 1)) [0..<m * cols])
         @ map (\<lambda>col. zone_at la lo m col (c + m * cols + col + 1)) [0..<cols],
        c + m * cols + cols)"
    by (rule columns_loop)
  also have "\<dots> = (zs @ map (\<lambda>k. zone_at la lo (k div cols) (k mod cols) (c + k + 1)) [0..<m * cols + cols],
        c + m * cols + cols)"
    unfolding upt_block map_append block [symmetric] by simp
  finally show ?case by (simp add: add.commute)
qed

lemma generateZones_as_map:
  "generateZones lat0 lon0 =
     map (\<lambda>k. zone_at lat0 lon0 (k div 6) (k mod 6) (k + 1)) [0..<48]"
  unfolding generateZones_def numberOfRows_def numberOfColumns_def
  by (subst rows_loop) simp_all

lemma generateZones_nth:
  "k < 48 \<Longrightarrow> generateZones lat0 lon0 ! k = zone_at lat0 lon0 (k div 6) (k mod 6) (k + 1)"
  by (simp add: generateZones_as_map del: upt_rec_numeral)

lemma generateZones_length: "length (generateZones lat0 lon0) = 48"
  by (simp add: generateZones_as_map del: upt_rec_numeral)

lemma generateZones_member:
  assumes "z \<in> set (generateZones lat0 lon0)"
  shows "\<exists>k < 48. z = zone_at lat0 lon0 (k div 6) (k mod 6) (k + 1)"
proof -
  from assms obtain k where "k < length (generateZones lat0 lon0)"
    and "generateZones lat0 lon0 ! k = z"
    by (auto simp: in_set_conv_nth)
  then show ?thesis
    using generateZones_nth [of k lat0 lon0] by (auto simp: generateZones_length)
qed

section \<open>Facts about the refresh\<close>

lemma update_zone_fails:
  "fetch_fails (fetch (computeCentroid (coordinates zone))) \<Longrightarrow>
     \<exists>message. fst (update_zone fetch zone c) = Inl message"
  by (auto simp: fetch_fails_def update_zone_def fetchTemperatureForZone_def
      split: FetchResult.splits)

lemma Promise_all_rejects:
  "\<exists>k < length rs. isl (rs ! k) \<Longrightarrow> isl (Promise_all rs)"
proof (induction rs rule: Promise_all.induct)
  case 1
  then show ?case by simp
next
  case (2 message rest)
  show ?case by simp
next
  case (3 v rest)
  from "3.prems" obtain k where k: "k < length (Inr v # rest)" "isl ((Inr v # rest) ! k)"
    by blast
  then obtain k' where "k = Suc k'" by (cases k) auto
  with k have "\<exists>k < length rest. isl (rest ! k)" by auto
  from "3.IH" [OF this] show ?case by (cases "Promise_all rest") simp_all
qed

lemma update_zones_nth:
  "k < length zs \<Longrightarrow>
    length (fst (update_zones provider n zs c)) = length zs
    \<and> (\<exists>c'. fst (update_zones provider n zs c) ! k = fst (update_zone (provider (n + k)) (zs ! k) c'))"
proof (induction zs arbitrary: n c k)
  case Nil
  then show ?case by simp
next
  case (Cons z zs)
  obtain r c1 where r: "update_zone (provider n) z c = (r, c1)" by (cases "update_zone (provider n) z c")
  obtain rs c2 where rs: "update_zones provider (n + 1) zs c1 = (rs, c2)"
    by (cases "update_zones provider (n + 1) zs c1")
  have len: "length rs = length zs"
  proof (cases zs)
    case Nil
    with rs show ?thesis by simp
  next
    case (Cons a list)
    then have "0 < length zs" by simp
    from Cons.IH [OF this, of "n + 1" c1] rs show ?thesis by simp
  qed
  show ?case
  proof (cases k)
    case 0
    with r rs len show ?thesis by (auto intro: exI [of _ c])
  next
    case (Suc k')
    with Cons.prems have "k' < length zs" by simp
    from Cons.IH [OF this, of "n + 1" c1] rs r Suc len show ?thesis by simp
  qed
qed

section \<open>Facts about the rounding\<close>

lemma binade_numeral:
  "binade (numeral k) a e =
    (if a \<ge> 2 powi (e + 1) then binade (pred_numeral k) a (e + 1)
     else if a < 2 powi e then binade (pred_numeral k) a (e - 1)
     else e)"
  by (simp add: numeral_eq_Suc)

lemmas double_simps = double_def exponent_def binade_numeral round_even_def Let_def

lemma binade_bracket:
  "2 powi (e - int n) \<le> a \<Longrightarrow> a < 2 powi (e + 1 + int n) \<Longrightarrow>
     2 powi (binade n a e) \<le> a \<and> a < 2 powi (binade n a e + 1)"
proof (induction n arbitrary: e)
  case 0
  then show ?case by simp
next
  case (Suc n)
  show ?case
  proof (cases "a \<ge> 2 powi (e + 1)")
    case True
    have "(2::real) powi (e + 1 - int n) \<le> 2 powi (e + 1)"
      by (rule power_int_increasing) simp_all
    with True have lo: "2 powi (e + 1 - int n) \<le> a" by simp
    from Suc.prems have hi: "a < 2 powi (e + 1 + 1 + int n)"
      by (simp add: add.commute add.left_commute)
    from Suc.IH [OF lo hi] True show ?thesis by simp
  next
    case False
    show ?thesis
    proof (cases "a < 2 powi e")
      case True
      from Suc.prems have lo: "2 powi (e - 1 - int n) \<le> a"
        by (simp add: algebra_simps)
      have "(2::real) powi e \<le> 2 powi (e - 1 + 1 + int n)"
        by (rule power_int_increasing) simp_all
      with True have hi: "a < 2 powi (e - 1 + 1 + int n)" by simp
      from Suc.IH [OF lo hi] True False show ?thesis by simp
    next
      case F2: False
      with False show ?thesis by simp
    qed
  qed
qed

lemma exponent_bracket:
  assumes "2 powi (- 2200) \<le> a" and "a < 2 powi 2201"
  shows "2 powi (exponent a) \<le> a \<and> a < 2 powi (exponent a + 1)"
  using binade_bracket [of 0 2200 a] assms by (simp add: exponent_def)

lemma round_even_of_int: "round_even (real_of_int k) = k"
  by (simp add: round_even_def)

lemma double_of_scaled_int:
  assumes "x \<noteq> 0" and "x / 2 powi (exponent \<bar>x\<bar> - 52) = real_of_int k"
  shows "double x = x"
proof -
  have "(2::real) powi (exponent \<bar>x\<bar> - 52) \<noteq> 0" by simp
  with assms(2) have "real_of_int k * 2 powi (exponent \<bar>x\<bar> - 52) = x"
    by (simp add: field_simps)
  with assms show ?thesis
    by (simp add: double_def Let_def round_even_of_int)
qed

lemma div_powi:
  assumes "E \<le> c"
  shows "y / (2::real) powi (E - c) = y * 2 ^ nat (c - E)"
proof -
  have "(2::real) powi (E - c) = inverse (2 powi (c - E))"
    using power_int_minus [of "2::real" "c - E"] by simp
  also have "(2::real) powi (c - E) = 2 ^ nat (c - E)"
    using assms by (simp add: power_int_def)
  finally show ?thesis by (simp add: field_simps)
qed

lemma double_half_integer:
  assumes "\<bar>n\<bar> \<le> 2 ^ 53"
  shows "double (real_of_int n / 2) = real_of_int n / 2"
proof (cases "n = 0")
  case True
  then show ?thesis by (simp add: double_def)
next
  case False
  define x where "x = real_of_int n / 2"
  define E where "E = exponent \<bar>x\<bar>"
  from False have x0: "x \<noteq> 0" by (simp add: x_def)
  from False have "1 \<le> \<bar>n\<bar>" by simp
  then have "1 \<le> \<bar>real_of_int n\<bar>" by linarith
  then have lo: "1 / 2 \<le> \<bar>x\<bar>" by (simp add: x_def)
  from assms have "\<bar>real_of_int n\<bar> \<le> 2 ^ 53"
    by (metis of_int_abs of_int_le_iff of_int_numeral of_int_power)
  then have hi: "\<bar>x\<bar> \<le> 2 ^ 52" by (simp add: x_def)
  have "(2::real) powi (- 2200) \<le> 2 powi (- 1)"
    by (rule power_int_increasing) simp_all
  with lo have lo': "2 powi (- 2200) \<le> \<bar>x\<bar>" by (simp add: power_int_minus)
  have "(2::real) ^ 52 < 2 powi 2201" by simp
  with hi have hi': "\<bar>x\<bar> < 2 powi 2201" by linarith
  from exponent_bracket [OF lo' hi'] have br: "2 powi E \<le> \<bar>x\<bar>" "\<bar>x\<bar> < 2 powi (E + 1)"
    by (simp_all add: E_def)
  have E52: "E \<le> 52"
  proof (rule ccontr)
    assume "\<not> E \<le> 52"
    then have "53 \<le> E" by simp
    then have "(2::real) powi 53 \<le> 2 powi E"
      by (intro power_int_increasing) simp_all
    with br(1) hi show False by simp
  qed
  show ?thesis
  proof (cases "even n")
    case True
    then obtain m where m: "n = 2 * m" by (auto elim: evenE)
    then have xm: "x = real_of_int m" by (simp add: x_def)
    from E52 have "x / 2 powi (E - 52) = real_of_int (m * 2 ^ nat (52 - E))"
      by (simp add: xm div_powi)
    from double_of_scaled_int [OF x0 this [unfolded E_def]] show ?thesis
      by (simp add: x_def)
  next
    case False
    have "n \<noteq> 2 ^ 53" "n \<noteq> - (2 ^ 53)" using False by auto
    with assms have "\<bar>n\<bar> < 2 ^ 53" by linarith
    then have "\<bar>real_of_int n\<bar> < 2 ^ 53"
      by (metis of_int_abs of_int_less_iff of_int_numeral of_int_power)
    then have "\<bar>x\<bar> < 2 ^ 52" by (simp add: x_def)
    have E51: "E \<le> 51"
    proof (rule ccontr)
      assume "\<not> E \<le> 51"
      then have "52 \<le> E" by simp
      then have "(2::real) powi 52 \<le> 2 powi E"
        by (intro power_int_increasing) simp_all
      with br(1) \<open>\<bar>x\<bar> < 2 ^ 52\<close> show False by simp
    qed
    then have suc: "nat (52 - E) = Suc (nat (51 - E))" by simp
    have "x / 2 powi (E - 52) = x * 2 ^ nat (52 - E)"
      using E52 by (rule div_powi)
    also have "\<dots> = real_of_int (n * 2 ^ nat (51 - E))"
      unfolding suc by (simp add: x_def)
    finally have "x / 2 powi (E - 52) = real_of_int (n * 2 ^ nat (51 - E))" .
    from double_of_scaled_int [OF x0 this [unfolded E_def]] show ?thesis
      by (simp add: x_def)
  qed
qed

lemma exact_double: "exact_on_half_integers double"
  by (simp add: exact_on_half_integers_def double_half_integer)

lemma exact_half_integer:
  assumes "exact_on_half_integers rnd" and "2 * x \<in> \<int>" and "\<bar>x\<bar> \<le> 2 ^ 51"
  shows "rnd x = x"
proof -
  from assms(2) obtain n :: int where n: "2 * x = real_of_int n" by (rule Ints_cases)
  from assms(3) have "\<bar>2 * x\<bar> \<le> 2 ^ 53" by simp
  then have "\<bar>real_of_int n\<bar> \<le> 2 ^ 53" by (simp only: n)
  then have "\<bar>n\<bar> \<le> 2 ^ 53"
    by (metis of_int_abs of_int_le_iff of_int_numeral of_int_power)
  with assms(1) have "rnd (real_of_int n / 2) = real_of_int n / 2"
    by (simp add: exact_on_half_integers_def)
  moreover from n have "real_of_int n / 2 = x" by simp
  ultimately show ?thesis by simp
qed

lemma exact_int:
  assumes "exact_on_half_integers rnd" and "\<bar>k\<bar> \<le> 2 ^ 20"
  shows "rnd (real_of_int k) = real_of_int k"
proof -
  have "2 * real_of_int k \<in> \<int>"
    by simp
  moreover from assms(2) have "\<bar>real_of_int k\<bar> \<le> 2 ^ 51"
  proof -
    from assms(2) have "\<bar>real_of_int k\<bar> \<le> 2 ^ 20"
      by (metis of_int_abs of_int_le_iff of_int_numeral of_int_power)
    also have "(2::real) ^ 20 \<le> 2 ^ 51" by simp
    finally show ?thesis .
  qed
  ultimately show ?thesis using assms(1) by (rule exact_half_integer [rotated])
qed

lemma exact_half_integer_diff:
  assumes "exact_on_half_integers rnd" and "half_integer a" and "half_integer b"
  shows "rnd (a - b) = a - b"
proof -
  from assms(2,3) have "2 * a - 2 * b \<in> \<int>"
    unfolding half_integer_def by (intro Ints_diff) simp_all
  then have fl: "2 * (a - b) \<in> \<int>"
    by (simp add: algebra_simps)
  from assms(2,3) have "\<bar>a - b\<bar> \<le> 2 ^ 20 + 2 ^ 20"
    unfolding half_integer_def by linarith
  also have "(2::real) ^ 20 + 2 ^ 20 \<le> 2 ^ 51" by simp
  finally show ?thesis using assms(1) fl by (intro exact_half_integer)
qed

lemma exact_channel:
  assumes "exact_on_half_integers rnd" and "\<bar>k\<bar> \<le> 255"
  shows "rnd (real_of_int k) = real_of_int k"
  using assms by (intro exact_int) simp_all

lemma exact_channel_diff:
  assumes "exact_on_half_integers rnd" and "\<bar>a\<bar> \<le> 255" and "\<bar>b\<bar> \<le> 255"
  shows "rnd (real_of_int a - real_of_int b) = real_of_int a - real_of_int b"
proof -
  from assms(2,3) have "\<bar>a - b\<bar> \<le> 2 ^ 20" by simp
  with assms(1) have "rnd (real_of_int (a - b)) = real_of_int (a - b)" by (rule exact_int)
  then show ?thesis by simp
qed

lemma exact_zero_one:
  assumes "exact_on_half_integers rnd"
  shows "rnd 0 = 0" and "rnd 1 = 1"
  using exact_int [OF assms, of 0] exact_int [OF assms, of 1] by simp_all

section \<open>Facts about the colour function in double arithmetic\<close>

lemma interpolate_double_identity: "interpolate_double (\<lambda>x. x) start end t = interpolate start end t"
  by (simp add: interpolate_double_def interpolate_def split: prod.splits)

lemma scan_stops_double_Num:
  "scan_stops_double rnd g (Num t) i =
     (case scan_stops g t i of
        None \<Rightarrow> None
      | Some (j, c) \<Rightarrow> Some (j, interpolate_double rnd (g ! j) (g ! (j + 1)) t))"
proof (induction g t i rule: scan_stops.induct)
  case (1 g t i)
  show ?case
  proof (cases "int i < int (length g) - 1")
    case False
    then show ?thesis
      by (simp add: scan_stops.simps [of g t i] scan_stops_double.simps [of rnd g "Num t" i])
  next
    case lt: True
    show ?thesis
    proof (cases "t \<ge> temp (g ! i) \<and> t \<le> temp (g ! (i + 1))")
      case True
      with lt show ?thesis
        by (simp add: scan_stops.simps [of g t i] scan_stops_double.simps [of rnd g "Num t" i]
            enclosed_value_def number_le_def number_ge_def)
    next
      case False
      from "1.IH" [OF lt refl refl False] lt False show ?thesis
        by (auto simp: scan_stops.simps [of g t i] scan_stops_double.simps [of rnd g "Num t" i]
            enclosed_value_def number_le_def number_ge_def Let_def)
    qed
  qed
qed


lemma traced_double_identity:
  "getTemperatureColor_double_traced (\<lambda>x. x) (Some (Num t)) = getTemperatureColor_traced (Some t)"
proof -
  have "scan_stops_double (\<lambda>x. x) gradient (Num t) 0 = scan_stops gradient t 0"
  proof (cases "scan_stops gradient t 0")
    case None
    then show ?thesis by (simp add: scan_stops_double_Num)
  next
    case (Some p)
    obtain j c where p: "p = (j, c)" by (cases p)
    from scan_stops_Some [of gradient t 0 j c] Some p
    have "c = interpolate (gradient ! j) (gradient ! (j + 1)) t" by simp
    with Some p show ?thesis
      by (simp add: scan_stops_double_Num interpolate_double_identity)
  qed
  then show ?thesis
    by (simp add: getTemperatureColor_double_traced_def getTemperatureColor_traced_def number_le_def
      number_ge_def)
qed

lemma traced_double_inside:
  assumes "temp (gradient ! 0) < t" and "t < temp (gradient ! (length gradient - 1))"
  shows "\<exists>j. encloses gradient t j
     \<and> (\<forall>k < j. \<not> encloses gradient t k)
     \<and> getTemperatureColor_double_traced rnd (Some (Num t))
       = (Ret_interpolated j, interpolate_double rnd (gradient ! j) (gradient ! (j + 1)) t)"
proof -
  from traced_inside [OF assms] obtain j where j: "encloses gradient t j"
    "\<forall>k < j. \<not> encloses gradient t k"
    and tr: "getTemperatureColor_traced (Some t)
       = (Ret_interpolated j, interpolate (gradient ! j) (gradient ! (j + 1)) t)"
    by blast
  from tr assms have "scan_stops gradient t 0
      = Some (j, interpolate (gradient ! j) (gradient ! (j + 1)) t)"
    by (auto simp: getTemperatureColor_traced_def split: option.splits)
  with assms have "getTemperatureColor_double_traced rnd (Some (Num t))
       = (Ret_interpolated j, interpolate_double rnd (gradient ! j) (gradient ! (j + 1)) t)"
    by (simp add: getTemperatureColor_double_traced_def number_le_def number_ge_def
        scan_stops_double_Num)
  with j show ?thesis by blast
qed

lemma gradient_plain: "k < length gradient \<Longrightarrow> plain_stop (gradient ! k)"
proof -
  have "list_all plain_stop gradient"
    by (simp add: gradient_def plain_stop_def half_integer_def)
  then show "k < length gradient \<Longrightarrow> plain_stop (gradient ! k)"
    by (simp add: list_all_length)
qed

lemma interpolate_double_at_start:
  assumes "exact_on_half_integers rnd" and "plain_stop start"
  shows "interpolate_double rnd start end (temp start) = rgbaFromColor (color start) default_alpha"
proof -
  obtain sr sg sb where c: "color start = (sr, sg, sb)" by (cases "color start")
  with assms(2) have b: "\<bar>sr\<bar> \<le> 255" "\<bar>sg\<bar> \<le> 255" "\<bar>sb\<bar> \<le> 255"
    by (simp_all add: plain_stop_def)
  show ?thesis
    using exact_channel [OF assms(1) b(1)] exact_channel [OF assms(1) b(2)]
      exact_channel [OF assms(1) b(3)]
    by (simp add: interpolate_double_def c exact_zero_one [OF assms(1)] Math_round_of_int
        split: prod.splits)
qed

lemma interpolate_double_at_end:
  assumes "exact_on_half_integers rnd" and "plain_stop start" and "plain_stop end"
    and "temp start < temp end"
  shows "interpolate_double rnd start end (temp end) = rgbaFromColor (color end) default_alpha"
proof -
  obtain sr sg sb where cs: "color start = (sr, sg, sb)" by (cases "color start")
  obtain er eg eb where ce: "color end = (er, eg, eb)" by (cases "color end")
  from assms(2) cs have bs: "\<bar>sr\<bar> \<le> 255" "\<bar>sg\<bar> \<le> 255" "\<bar>sb\<bar> \<le> 255"
    by (simp_all add: plain_stop_def)
  from assms(3) ce have be: "\<bar>er\<bar> \<le> 255" "\<bar>eg\<bar> \<le> 255" "\<bar>eb\<bar> \<le> 255"
    by (simp_all add: plain_stop_def)
  from assms(2,3) have d: "rnd (temp end - temp start) = temp end - temp start"
    by (intro exact_half_integer_diff [OF assms(1)]) (simp_all add: plain_stop_def)
  from assms(4) have nz: "temp end \<noteq> temp start" by simp
  show ?thesis
    using exact_channel_diff [OF assms(1) be(1) bs(1)] exact_channel_diff [OF assms(1) be(2) bs(2)]
      exact_channel_diff [OF assms(1) be(3) bs(3)]
      exact_channel [OF assms(1) be(1)] exact_channel [OF assms(1) be(2)]
      exact_channel [OF assms(1) be(3)]
    by (simp add: interpolate_double_def cs ce d nz exact_zero_one [OF assms(1)]
        Math_round_of_int)
qed

lemma interpolate_double_any_enclosing:
  assumes "exact_on_half_integers rnd" and "encloses gradient t i" and "encloses gradient t j"
  shows "interpolate_double rnd (gradient ! i) (gradient ! (i + 1)) t
       = interpolate_double rnd (gradient ! j) (gradient ! (j + 1)) t"
proof -
  have aux: "interpolate_double rnd (gradient ! a) (gradient ! (a + 1)) t
       = interpolate_double rnd (gradient ! b) (gradient ! (b + 1)) t"
    if "encloses gradient t a" "encloses gradient t b" "a < b" for a b
  proof -
    from encloses_twice [OF that] have b: "b = a + 1" and t: "t = temp (gradient ! b)"
      by simp_all
    from that have bl: "b < length gradient" by (simp add: encloses_def)
    with b have lt: "temp (gradient ! a) < temp (gradient ! (a + 1))"
      by (simp add: gradient_temp_less)
    from bl b have pa: "plain_stop (gradient ! a)" and pb: "plain_stop (gradient ! (a + 1))"
      by (simp_all add: gradient_plain)
    show ?thesis
      using b t interpolate_double_at_end [OF assms(1) pa pb lt]
        interpolate_double_at_start [OF assms(1) pb]
      by simp
  qed
  consider "i < j" | "i = j" | "j < i" by linarith
  then show ?thesis
    using aux [of i j] aux [of j i] assms by cases simp_all
qed

lemma color_double_inside:
  assumes "exact_on_half_integers rnd"
    and "temp (gradient ! 0) < t" and "t < temp (gradient ! (length gradient - 1))"
    and "encloses gradient t i"
  shows "getTemperatureColor_double rnd (Some (Num t))
       = interpolate_double rnd (gradient ! i) (gradient ! (i + 1)) t"
proof -
  from traced_double_inside [OF assms(2,3), of rnd] obtain j where "encloses gradient t j"
    and "getTemperatureColor_double_traced rnd (Some (Num t))
       = (Ret_interpolated j, interpolate_double rnd (gradient ! j) (gradient ! (j + 1)) t)"
    by blast
  then show ?thesis
    using interpolate_double_any_enclosing [OF assms(1), of t j i] assms(4)
    by (simp add: getTemperatureColor_double_def)
qed

lemma interpolate_double_channels:
  "interpolate_double rnd start end t =
    (let factor = rnd (rnd (t - temp start) / rnd (temp end - temp start));
         ch = (\<lambda>s e. Math_round (rnd (real_of_int s
                 + rnd (factor * rnd (real_of_int e - real_of_int s)))))
     in Rgba (ch (fst (color start)) (fst (color end)))
             (ch (fst (snd (color start))) (fst (snd (color end))))
             (ch (snd (snd (color start))) (snd (snd (color end)))) 0.5)"
  by (simp add: interpolate_double_def rgbaFromColor_def default_alpha_def Let_def
      split: prod.splits)

section \<open>Facts about the grid in double arithmetic\<close>

lemma zone_at_double_identity: "zone_at_double (\<lambda>x. x) = zone_at"
  by (simp add: zone_at_double_def zone_at_def latStep_double_def lonStep_double_def
      latStep_def lonStep_def fun_eq_iff)

lemma push_zone_double_identity: "push_zone_double (\<lambda>x. x) = push_zone"
  by (simp add: push_zone_double_def push_zone_def zone_at_double_identity fun_eq_iff)

lemma generateZones_double_identity: "generateZones_double (\<lambda>x. x) = generateZones"
  by (simp add: generateZones_double_def generateZones_def push_zone_double_identity
      fun_eq_iff)

lemma computeCentroid_double_identity: "computeCentroid_double (\<lambda>x. x) = computeCentroid"
  by (simp add: computeCentroid_double_def computeCentroid_def fun_eq_iff)

lemma columns_loop_double:
  "fold (\<lambda>col. push_zone_double rnd la lo row col) [0..<n] (zs, c)
     = (zs @ map (\<lambda>col. zone_at_double rnd la lo row col (c + col + 1)) [0..<n], c + n)"
  by (induction n) (simp_all add: push_zone_double_def)

lemma rows_loop_double:
  assumes "0 < cols"
  shows "fold (\<lambda>row. fold (\<lambda>col. push_zone_double rnd la lo row col) [0..<cols]) [0..<m] (zs, c)
     = (zs @ map (\<lambda>k. zone_at_double rnd la lo (k div cols) (k mod cols) (c + k + 1))
              [0..<m * cols],
        c + m * cols)"
proof (induction m)
  case 0
  show ?case by simp
next
  case (Suc m)
  have block: "map (\<lambda>k. zone_at_double rnd la lo (k div cols) (k mod cols) (c + k + 1))
        (map (\<lambda>i. m * cols + i) [0..<cols])
      = map (\<lambda>col. zone_at_double rnd la lo m col (c + m * cols + col + 1)) [0..<cols]"
    using assms by (simp add: add.assoc)
  have "fold (\<lambda>row. fold (\<lambda>col. push_zone_double rnd la lo row col) [0..<cols]) [0..<Suc m]
        (zs, c)
      = fold (\<lambda>col. push_zone_double rnd la lo m col) [0..<cols]
          (zs @ map (\<lambda>k. zone_at_double rnd la lo (k div cols) (k mod cols) (c + k + 1))
                  [0..<m * cols],
           c + m * cols)"
    by (simp add: Suc.IH)
  also have "\<dots> =
       ((zs @ map (\<lambda>k. zone_at_double rnd la lo (k div cols) (k mod cols) (c + k + 1))
                [0..<m * cols])
         @ map (\<lambda>col. zone_at_double rnd la lo m col (c + m * cols + col + 1)) [0..<cols],
        c + m * cols + cols)"
    by (rule columns_loop_double)
  also have "\<dots> =
       (zs @ map (\<lambda>k. zone_at_double rnd la lo (k div cols) (k mod cols) (c + k + 1))
               [0..<m * cols + cols],
        c + m * cols + cols)"
    unfolding upt_block map_append block [symmetric] by simp
  finally show ?case by (simp add: add.commute)
qed

lemma generateZones_double_as_map:
  "generateZones_double rnd lat0 lon0 =
     map (\<lambda>k. zone_at_double rnd lat0 lon0 (k div 6) (k mod 6) (k + 1)) [0..<48]"
  unfolding generateZones_double_def numberOfRows_def numberOfColumns_def
  by (subst rows_loop_double) simp_all

lemma generateZones_double_nth:
  "k < 48 \<Longrightarrow>
     generateZones_double rnd lat0 lon0 ! k
       = zone_at_double rnd lat0 lon0 (k div 6) (k mod 6) (k + 1)"
  by (simp add: generateZones_double_as_map del: upt_rec_numeral)

lemma generateZones_double_length: "length (generateZones_double rnd lat0 lon0) = 48"
  by (simp add: generateZones_double_as_map del: upt_rec_numeral)

lemma generateZones_double_member:
  assumes "z \<in> set (generateZones_double rnd lat0 lon0)"
  shows "\<exists>k < 48. z = zone_at_double rnd lat0 lon0 (k div 6) (k mod 6) (k + 1)"
proof -
  from assms obtain k where "k < length (generateZones_double rnd lat0 lon0)"
    and "generateZones_double rnd lat0 lon0 ! k = z"
    by (auto simp: in_set_conv_nth)
  then show ?thesis
    using generateZones_double_nth [of k rnd lat0 lon0]
    by (auto simp: generateZones_double_length)
qed

lemma zone4_coordinates:
  "coordinates (generateZones_double double 37 (-122) ! 3) =
      [\<lparr>latitude = 37, longitude = - (8563876166421709 / 70368744177664)\<rparr>,
       \<lparr>latitude = 37, longitude = - (4278419646001971 / 35184372088832)\<rparr>,
       \<lparr>latitude = 2609273034107781 / 70368744177664,
        longitude = - (4278419646001971 / 35184372088832)\<rparr>,
       \<lparr>latitude = 2609273034107781 / 70368744177664,
        longitude = - (8563876166421709 / 70368744177664)\<rparr>]"
proof -
  have steps: "double (8 / 100) = 5764607523034235 / 72057594037927936"
    "double (1 / 10) = 3602879701896397 / 36028797018963968"
    by (simp_all add: double_simps)
  have "generateZones_double double 37 (-122) ! 3 = zone_at_double double 37 (-122) 0 3 4"
    using generateZones_double_nth [of 3 double 37 "-122"] by simp
  then show ?thesis
    by (simp add: zone_at_double_def latStep_double_def lonStep_double_def Let_def steps)
      (simp add: double_simps)
qed

lemma zone4_centroid:
  "computeCentroid_double double (coordinates (generateZones_double double 37 (-122) ! 3)) =
     Some \<lparr>latitude = 5212916568681349 / 140737488355328,
           longitude = - (8560357729212825 / 70368744177664)\<rparr>"
  unfolding zone4_coordinates
  by (simp add: computeCentroid_double_def Let_def) (simp add: double_simps)

section \<open>Batch refresh\<close>

text \<open>
  C1. A refresh cycle is all or nothing. Whatever zones are published and whatever zones
  the cycle is asked to update, if the request of at least one zone fails, the published
  zones are after the cycle what they were before it, no zone having a new temperature, an
  error message that is not empty is set, and the loading flag is cleared.
\<close>

theorem failed_refresh_keeps_zones:
  assumes "\<exists>k < length zonesToUpdate.
      fetch_fails (provider k (computeCentroid (coordinates (zonesToUpdate ! k))))"
  shows "zones (fetchZoneTemperatures provider zonesToUpdate st) = zones st
    \<and> (\<exists>message. error (fetchZoneTemperatures provider zonesToUpdate st) = Some message
          \<and> message \<noteq> [])
    \<and> loading (fetchZoneTemperatures provider zonesToUpdate st) = False"
proof -
  obtain results c' where res: "update_zones provider 0 zonesToUpdate (apiCallCount st) = (results, c')"
    by (cases "update_zones provider 0 zonesToUpdate (apiCallCount st)")
  from assms obtain k where k: "k < length zonesToUpdate"
    and f: "fetch_fails (provider k (computeCentroid (coordinates (zonesToUpdate ! k))))"
    by blast
  from update_zones_nth [OF k, of provider 0 "apiCallCount st"] res
  obtain c1 where len: "length results = length zonesToUpdate"
    and nth: "results ! k = fst (update_zone (provider k) (zonesToUpdate ! k) c1)"
    by auto
  from update_zone_fails [of "provider k" "zonesToUpdate ! k" c1] f nth have "isl (results ! k)" by auto
  with k len have "\<exists>k < length results. isl (results ! k)" by auto
  then have "isl (Promise_all results)" by (rule Promise_all_rejects)
  then obtain message where "Promise_all results = Inl message"
    by (cases "Promise_all results") auto
  with res show ?thesis
    by (simp add: fetchZoneTemperatures_def)
qed

theorem failed_refresh_keeps_zones_witness:
  "(\<exists>k < length [\<lparr>zone_id = ''zone1'', coordinates = [\<lparr>latitude = 1, longitude = 2\<rparr>],
                       temperature = Some 10\<rparr>,
                     \<lparr>zone_id = ''zone2'', coordinates = [\<lparr>latitude = 3, longitude = 4\<rparr>],
                       temperature = Some 11\<rparr>].
      fetch_fails ((\<lambda>n c. if n = 0 then Response True 12 else Response False 0) k
        (computeCentroid (coordinates
          ([\<lparr>zone_id = ''zone1'', coordinates = [\<lparr>latitude = 1, longitude = 2\<rparr>],
              temperature = Some 10\<rparr>,
            \<lparr>zone_id = ''zone2'', coordinates = [\<lparr>latitude = 3, longitude = 4\<rparr>],
              temperature = Some 11\<rparr>] ! k)))))
   \<and> zones (fetchZoneTemperatures (\<lambda>n c. if n = 0 then Response True 12 else Response False 0)
        [\<lparr>zone_id = ''zone1'', coordinates = [\<lparr>latitude = 1, longitude = 2\<rparr>],
           temperature = Some 10\<rparr>,
         \<lparr>zone_id = ''zone2'', coordinates = [\<lparr>latitude = 3, longitude = 4\<rparr>],
           temperature = Some 11\<rparr>]
        \<lparr>zones = [\<lparr>zone_id = ''zone1'', coordinates = [\<lparr>latitude = 1, longitude = 2\<rparr>],
                    temperature = Some 10\<rparr>],
         loading = True, error = None, apiCallCount = 0\<rparr>)
     = [\<lparr>zone_id = ''zone1'', coordinates = [\<lparr>latitude = 1, longitude = 2\<rparr>],
          temperature = Some 10\<rparr>]"
proof -
  let ?provider = "\<lambda>n (c :: Coordinate option). if n = (0::nat) then Response True 12
    else Response False 0"
  let ?zs = "[\<lparr>zone_id = ''zone1'', coordinates = [\<lparr>latitude = 1, longitude = 2\<rparr>],
                temperature = Some 10\<rparr>,
              \<lparr>zone_id = ''zone2'', coordinates = [\<lparr>latitude = 3, longitude = 4\<rparr>],
                temperature = Some 11\<rparr>]"
  have h: "\<exists>k < length ?zs.
      fetch_fails (?provider k (computeCentroid (coordinates (?zs ! k))))"
    by (rule exI [of _ 1]) (simp add: fetch_fails_def)
  from failed_refresh_keeps_zones [OF h] h show ?thesis
    by simp
qed

section \<open>Interpolation inside the table\<close>

text \<open>
  C2, as amended. For a temperature strictly between the first and the last stop, the
  loop returns at the first adjacent pair that encloses the temperature. Every adjacent
  pair (start, end) that encloses it gives the returned colour: per channel
  round(start + factor * (end - start)) with
  factor = (t - start.temp) / (end.temp - start.temp), each operation rounded as the
  arithmetic of doubles rounds it, and alpha 0.5. Two different pairs enclose the
  temperature only when it is the temperature of the stop they share. At the temperature
  of a stop the result is that stop's colour. In double arithmetic the colour for 13.9375
  is (233, 182, 57): the blue channel is the rounding of 57.49999999999999.
\<close>

theorem interpolation_inside_table:
  assumes "exact_on_half_integers rnd"
    and "temp (gradient ! 0) < t" and "t < temp (gradient ! (length gradient - 1))"
  shows "(\<exists>i. encloses gradient t i \<and> (\<forall>k < i. \<not> encloses gradient t k)
            \<and> fst (getTemperatureColor_double_traced rnd (Some (Num t))) = Ret_interpolated i)
    \<and> (\<forall>i. encloses gradient t i \<longrightarrow>
          (let start = gradient ! i; end = gradient ! (i + 1);
               factor = rnd (rnd (t - temp start) / rnd (temp end - temp start));
               ch = (\<lambda>s e. Math_round (rnd (real_of_int s
                       + rnd (factor * rnd (real_of_int e - real_of_int s)))))
           in getTemperatureColor_double rnd (Some (Num t)) =
                Rgba (ch (fst (color start)) (fst (color end)))
                     (ch (fst (snd (color start))) (fst (snd (color end))))
                     (ch (snd (snd (color start))) (snd (snd (color end)))) 0.5))
    \<and> (\<forall>i j. encloses gradient t i \<and> encloses gradient t j \<and> i < j \<longrightarrow>
          j = i + 1 \<and> t = temp (gradient ! j))
    \<and> (\<forall>k < length gradient. t = temp (gradient ! k) \<longrightarrow>
          getTemperatureColor_double rnd (Some (Num t))
            = rgbaFromColor (color (gradient ! k)) 0.5)"
proof -
  have first: "\<exists>i. encloses gradient t i \<and> (\<forall>k < i. \<not> encloses gradient t k)
            \<and> fst (getTemperatureColor_double_traced rnd (Some (Num t))) = Ret_interpolated i"
    using traced_double_inside [OF assms(2,3), of rnd] by auto
  have formula: "let start = gradient ! i; end = gradient ! (i + 1);
               factor = rnd (rnd (t - temp start) / rnd (temp end - temp start));
               ch = (\<lambda>s e. Math_round (rnd (real_of_int s
                       + rnd (factor * rnd (real_of_int e - real_of_int s)))))
           in getTemperatureColor_double rnd (Some (Num t)) =
                Rgba (ch (fst (color start)) (fst (color end)))
                     (ch (fst (snd (color start))) (fst (snd (color end))))
                     (ch (snd (snd (color start))) (snd (snd (color end)))) 0.5"
    if "encloses gradient t i" for i
    using color_double_inside [OF assms that]
    by (simp add: interpolate_double_channels Let_def)
  have twice: "j = i + 1 \<and> t = temp (gradient ! j)"
    if "encloses gradient t i \<and> encloses gradient t j \<and> i < j" for i j
    using that encloses_twice [of t i j] by simp
  have stop: "getTemperatureColor_double rnd (Some (Num t))
        = rgbaFromColor (color (gradient ! k)) 0.5"
    if k: "k < length gradient" and t: "t = temp (gradient ! k)" for k
  proof -
    have "k \<noteq> length gradient - 1"
      using assms(3) t by auto
    with k have k1: "k + 1 < length gradient" by simp
    then have "temp (gradient ! k) < temp (gradient ! (k + 1))"
      by (simp add: gradient_temp_less)
    with k1 t have "encloses gradient t k" by (simp add: encloses_def)
    from color_double_inside [OF assms this] t
      interpolate_double_at_start [OF assms(1) gradient_plain [OF k]]
    show ?thesis
      by (simp add: default_alpha_def)
  qed
  from first formula twice stop show ?thesis by blast
qed

theorem interpolation_inside_table_witness:
  "exact_on_half_integers double
   \<and> temp (gradient ! 0) < 13.9375 \<and> 13.9375 < temp (gradient ! (length gradient - 1))
   \<and> encloses gradient 13.9375 9
   \<and> getTemperatureColor_double double (Some (Num 13.9375)) = Rgba 233 182 57 0.5"
proof -
  have r: "temp (gradient ! 0) < 13.9375" "13.9375 < temp (gradient ! (length gradient - 1))"
    by (simp_all add: gradient_def)
  have e: "encloses gradient 13.9375 9"
    by (simp add: encloses_def gradient_def)
  have g: "gradient ! 9 = \<lparr>temp = 12.5, color = (204, 204, 0)\<rparr>"
    "gradient ! 10 = \<lparr>temp = 15, color = (255, 165, 100)\<rparr>"
    by (simp_all add: gradient_def)
  from interpolation_inside_table [OF exact_double r, THEN conjunct2, THEN conjunct1,
      rule_format, OF e]
  have "getTemperatureColor_double double (Some (Num 13.9375)) =
      Rgba (Math_round (double (204 + double (double (double (23 / 16) / double (5 / 2))
              * double 51))))
           (Math_round (double (204 + double (double (double (23 / 16) / double (5 / 2))
              * double (- 39)))))
           (Math_round (double (double (double (double (23 / 16) / double (5 / 2))
              * double 100)))) 0.5"
    by (simp add: g Let_def)
  also have "\<dots> = Rgba 233 182 57 0.5"
    by (simp add: double_simps Math_round_def)
  finally have "getTemperatureColor_double double (Some (Num 13.9375)) = Rgba 233 182 57 0.5" .
  with r e exact_double show ?thesis by simp
qed

text \<open>
  The enclosing pair is not unique at an interior stop: 0 lies strictly inside the table,
  and both the pair at index 3 (from -2.5 to 0) and the pair at index 4 (from 0 to 2.5)
  enclose it.
\<close>

theorem enclosing_pair_not_unique:
  "temp (gradient ! 0) < 0 \<and> 0 < temp (gradient ! (length gradient - 1))
   \<and> encloses gradient 0 3 \<and> encloses gradient 0 4 \<and> (3::nat) \<noteq> 4"
  by (simp add: encloses_def gradient_def)

section \<open>Grid generation\<close>

text \<open>
  C3. For every origin the grid has 48 zones, named zone1 to zone48 in generation order.
  The zone of row \<open>row\<close> and column \<open>col\<close> is at index \<open>row * 6 + col\<close> (rows outside,
  columns inside); its four corners are, in this order, min-lat/min-lon, min-lat/max-lon,
  max-lat/max-lon and max-lat/min-lon of the cell with steps 0.08 and 0.10; its
  temperature is absent. The first corner of zone1 is the origin.
\<close>

theorem generateZones_grid:
  "length (generateZones lat0 lon0) = 48
   \<and> map zone_id (generateZones lat0 lon0) = map (\<lambda>k. ''zone'' @ string_of_nat k) [1..<49]
   \<and> (\<forall>row < 8. \<forall>col < 6.
        generateZones lat0 lon0 ! (row * 6 + col) =
          \<lparr>zone_id = ''zone'' @ string_of_nat (row * 6 + col + 1),
           coordinates =
             [\<lparr>latitude = lat0 + real row * 0.08, longitude = lon0 + real col * 0.10\<rparr>,
              \<lparr>latitude = lat0 + real row * 0.08, longitude = lon0 + real (col + 1) * 0.10\<rparr>,
              \<lparr>latitude = lat0 + real (row + 1) * 0.08, longitude = lon0 + real (col + 1) * 0.10\<rparr>,
              \<lparr>latitude = lat0 + real (row + 1) * 0.08, longitude = lon0 + real col * 0.10\<rparr>],
           temperature = None\<rparr>)
   \<and> (\<forall>z \<in> set (generateZones lat0 lon0). length (coordinates z) = 4 \<and> temperature z = None)
   \<and> zone_id (generateZones lat0 lon0 ! 0) = ''zone1''
   \<and> zone_id (generateZones lat0 lon0 ! 47) = ''zone48''
   \<and> coordinates (generateZones lat0 lon0 ! 0) ! 0 = \<lparr>latitude = lat0, longitude = lon0\<rparr>"
proof -
  have ids: "map zone_id (generateZones lat0 lon0) = map (\<lambda>k. ''zone'' @ string_of_nat k) [1..<49]"
  proof -
    have "[1..<49] = map Suc [0..<48]"
      by (simp only: map_Suc_upt) simp
    then show ?thesis
      by (simp add: generateZones_as_map zone_at_def Let_def comp_def del: upt_rec_numeral)
  qed
  have cell: "generateZones lat0 lon0 ! (row * 6 + col) =
          \<lparr>zone_id = ''zone'' @ string_of_nat (row * 6 + col + 1),
           coordinates =
             [\<lparr>latitude = lat0 + real row * 0.08, longitude = lon0 + real col * 0.10\<rparr>,
              \<lparr>latitude = lat0 + real row * 0.08, longitude = lon0 + real (col + 1) * 0.10\<rparr>,
              \<lparr>latitude = lat0 + real (row + 1) * 0.08, longitude = lon0 + real (col + 1) * 0.10\<rparr>,
              \<lparr>latitude = lat0 + real (row + 1) * 0.08, longitude = lon0 + real col * 0.10\<rparr>],
           temperature = None\<rparr>" if "row < 8" "col < 6" for row col
  proof -
    from that have "row * 6 + col < 48" by simp
    from generateZones_nth [OF this, of lat0 lon0] that show ?thesis
      by (simp add: zone_at_def Let_def latStep_def lonStep_def)
  qed
  have every: "length (coordinates z) = 4 \<and> temperature z = None"
    if "z \<in> set (generateZones lat0 lon0)" for z
    using generateZones_member [OF that] by (auto simp: zone_at_def Let_def)
  have first: "zone_id (generateZones lat0 lon0 ! 0) = ''zone1''"
    "coordinates (generateZones lat0 lon0 ! 0) ! 0 = \<lparr>latitude = lat0, longitude = lon0\<rparr>"
    using generateZones_nth [of 0 lat0 lon0]
    by (simp_all add: zone_at_def Let_def string_of_nat.simps)
  have last: "zone_id (generateZones lat0 lon0 ! 47) = ''zone48''"
    using generateZones_nth [of 47 lat0 lon0]
    by (simp add: zone_at_def Let_def string_of_nat.simps)
  from ids cell every first last show ?thesis
    by (simp add: generateZones_length)
qed

theorem generateZones_grid_witness:
  "(1::nat) < 8 \<and> (2::nat) < 6
   \<and> generateZones 37 (-122) ! 8 =
       \<lparr>zone_id = ''zone9'',
        coordinates =
          [\<lparr>latitude = 37.08, longitude = -121.8\<rparr>,
           \<lparr>latitude = 37.08, longitude = -121.7\<rparr>,
           \<lparr>latitude = 37.16, longitude = -121.7\<rparr>,
           \<lparr>latitude = 37.16, longitude = -121.8\<rparr>],
        temperature = None\<rparr>"
  using generateZones_grid [of 37 "-122", THEN conjunct2, THEN conjunct2, THEN conjunct1,
      rule_format, of 1 2]
  by (simp add: string_of_nat.simps)

section \<open>Clamping outside the table\<close>

text \<open>
  C4. A temperature at or below the first stop gets the first stop's colour, and one at
  or above the last stop gets the last stop's colour, both with alpha 0.5; nothing is
  extrapolated.
\<close>

theorem clamped_outside_table:
  "(t \<le> temp (gradient ! 0) \<longrightarrow>
      getTemperatureColor (Some t) = rgbaFromColor (color (gradient ! 0)) 0.5
      \<and> getTemperatureColor (Some t) = Rgba 0 0 139 0.5
      \<and> fst (getTemperatureColor_traced (Some t)) = Ret_lowest)
   \<and> (t \<ge> temp (gradient ! (length gradient - 1)) \<longrightarrow>
      getTemperatureColor (Some t) = rgbaFromColor (color (gradient ! (length gradient - 1))) 0.5
      \<and> getTemperatureColor (Some t) = Rgba 100 0 0 0.5
      \<and> fst (getTemperatureColor_traced (Some t)) = Ret_highest)"
  by (simp add: getTemperatureColor_def getTemperatureColor_traced_def gradient_def
      rgbaFromColor_def default_alpha_def)

theorem clamped_outside_table_witness:
  "(-20 :: real) \<le> temp (gradient ! 0) \<and> getTemperatureColor (Some (-20)) = Rgba 0 0 139 0.5
   \<and> (40 :: real) \<ge> temp (gradient ! (length gradient - 1))
   \<and> getTemperatureColor (Some 40) = Rgba 100 0 0 0.5"
  using clamped_outside_table [of "-20"] clamped_outside_table [of 40]
  by (simp add: gradient_def rgbaFromColor_def)

section \<open>The example at 2.5 degrees\<close>

text \<open>
  C5, as amended. The table has a stop at 0 with colour (240, 248, 255) and a stop at 5
  with colour (255, 255, 153), and between them a stop at 2.5 with colour
  (255, 255, 224). The colour for 2.5 is the colour of that stop, with alpha 0.5.
\<close>

theorem color_at_2_5:
  "gradient ! 4 = \<lparr>temp = 0, color = (240, 248, 255)\<rparr>
   \<and> gradient ! 5 = \<lparr>temp = 2.5, color = (255, 255, 224)\<rparr>
   \<and> gradient ! 6 = \<lparr>temp = 5, color = (255, 255, 153)\<rparr>
   \<and> getTemperatureColor (Some 2.5) = Rgba 255 255 224 0.5"
  unfolding getTemperatureColor_def traced_at_2_5 by (simp add: gradient_def)

text \<open>
  The colour for 2.5 is not (247, 251, 204).
\<close>

theorem midpoint_example_counterexample:
  "(red (getTemperatureColor (Some 2.5)), green (getTemperatureColor (Some 2.5)),
    blue (getTemperatureColor (Some 2.5))) \<noteq> (247, 251, 204)"
  unfolding getTemperatureColor_def traced_at_2_5 by simp

section \<open>Channels between two stops\<close>

text \<open>
  C6. For temperatures strictly between two adjacent stops, every channel of the
  returned colour lies between the channels of the two stops, and from a temperature to a
  higher one of the same interval every channel moves toward the end stop's channel or
  stays.
\<close>

theorem channels_between_and_monotone:
  assumes "i + 1 < length gradient" and "temp (gradient ! i) < t1" and "t1 \<le> t2"
    and "t2 < temp (gradient ! (i + 1))"
  shows "case color (gradient ! i) of (sr, sg, sb) \<Rightarrow>
         case color (gradient ! (i + 1)) of (er, eg, eb) \<Rightarrow>
           let c1 = getTemperatureColor (Some t1); c2 = getTemperatureColor (Some t2)
           in between sr er (red c1) \<and> between sg eg (green c1) \<and> between sb eb (blue c1)
            \<and> between sr er (red c2) \<and> between sg eg (green c2) \<and> between sb eb (blue c2)
            \<and> toward sr er (red c1) (red c2) \<and> toward sg eg (green c1) (green c2)
            \<and> toward sb eb (blue c1) (blue c2)
            \<and> alpha c1 = 0.5 \<and> alpha c2 = 0.5"
proof -
  let ?s = "gradient ! i" and ?e = "gradient ! (i + 1)"
  define f where "f t = (t - temp ?s) / (temp ?e - temp ?s)" for t
  from assms have d: "0 < temp ?e - temp ?s" by simp
  have in1: "temp ?s < t1" "t1 < temp ?e" using assms by simp_all
  have in2: "temp ?s < t2" "t2 < temp ?e" using assms by simp_all
  have f1: "0 \<le> f t1" "f t1 \<le> 1" using d in1 by (simp_all add: f_def)
  have f2: "0 \<le> f t2" "f t2 \<le> 1" using d in2 by (simp_all add: f_def)
  have f12: "f t1 \<le> f t2" using d assms(3) by (simp add: f_def divide_right_mono)
  have c1: "getTemperatureColor (Some t1) = interpolate ?s ?e t1"
    using strictly_between_stops [OF assms(1) in1] color_inside by blast
  have c2: "getTemperatureColor (Some t2) = interpolate ?s ?e t2"
    using strictly_between_stops [OF assms(1) in2] color_inside by blast
  show ?thesis
    unfolding c1 c2 interpolate_channels
    using channel_between [OF f1] channel_between [OF f2] channel_toward [OF f12]
    by (simp add: f_def Let_def split: prod.splits)
qed

theorem channels_between_and_monotone_witness:
  "4 + 1 < length gradient \<and> temp (gradient ! 4) < 1 \<and> (1::real) \<le> 2
   \<and> 2 < temp (gradient ! (4 + 1))
   \<and> between 240 255 (red (getTemperatureColor (Some 1)))
   \<and> toward 255 224 (blue (getTemperatureColor (Some 1))) (blue (getTemperatureColor (Some 2)))"
proof -
  have h: "4 + 1 < length gradient" "temp (gradient ! 4) < 1" "(1::real) \<le> 2"
    "2 < temp (gradient ! (4 + 1))"
    by (simp_all add: gradient_def)
  have g: "color (gradient ! 4) = (240, 248, 255)" "color (gradient ! 5) = (255, 255, 224)"
    by (simp_all add: gradient_def)
  from channels_between_and_monotone [OF h] h show ?thesis
    by (simp add: g Let_def)
qed

section \<open>Centroid\<close>

text \<open>
  C7, as amended. For every zone of a generated grid, the centroid is per coordinate the
  sum of the four corner values, added up from 0 in array order, divided by 4, each
  operation rounded as the arithmetic of doubles rounds it. In exact arithmetic this is the
  arithmetic mean of the four corners and the centre of the rectangle, the mean of the
  first corner (min-lat/min-lon) and the third corner (max-lat/max-lon).
\<close>

theorem centroid_of_generated_zone:
  "(\<forall>z \<in> set (generateZones_double rnd lat0 lon0).
      length (coordinates z) = 4
      \<and> computeCentroid_double rnd (coordinates z) =
          Some \<lparr>latitude =
                  rnd (rnd (rnd (rnd (rnd (0 + latitude (coordinates z ! 0))
                    + latitude (coordinates z ! 1)) + latitude (coordinates z ! 2))
                    + latitude (coordinates z ! 3)) / 4),
                longitude =
                  rnd (rnd (rnd (rnd (rnd (0 + longitude (coordinates z ! 0))
                    + longitude (coordinates z ! 1)) + longitude (coordinates z ! 2))
                    + longitude (coordinates z ! 3)) / 4)\<rparr>)
   \<and> (\<forall>z \<in> set (generateZones_double (\<lambda>x. x) lat0 lon0).
      computeCentroid_double (\<lambda>x. x) (coordinates z) =
          Some \<lparr>latitude = (latitude (coordinates z ! 0) + latitude (coordinates z ! 1)
                            + latitude (coordinates z ! 2) + latitude (coordinates z ! 3)) / 4,
                longitude = (longitude (coordinates z ! 0) + longitude (coordinates z ! 1)
                            + longitude (coordinates z ! 2) + longitude (coordinates z ! 3)) / 4\<rparr>
      \<and> computeCentroid_double (\<lambda>x. x) (coordinates z) =
          Some \<lparr>latitude = (latitude (coordinates z ! 0) + latitude (coordinates z ! 2)) / 2,
                longitude = (longitude (coordinates z ! 0) + longitude (coordinates z ! 2)) / 2\<rparr>)"
proof -
  have general: "length (coordinates z) = 4
      \<and> computeCentroid_double rnd (coordinates z) =
          Some \<lparr>latitude =
                  rnd (rnd (rnd (rnd (rnd (0 + latitude (coordinates z ! 0))
                    + latitude (coordinates z ! 1)) + latitude (coordinates z ! 2))
                    + latitude (coordinates z ! 3)) / 4),
                longitude =
                  rnd (rnd (rnd (rnd (rnd (0 + longitude (coordinates z ! 0))
                    + longitude (coordinates z ! 1)) + longitude (coordinates z ! 2))
                    + longitude (coordinates z ! 3)) / 4)\<rparr>"
    if "z \<in> set (generateZones_double rnd lat0 lon0)" for z
  proof -
    from generateZones_double_member [OF that] obtain k
      where z: "z = zone_at_double rnd lat0 lon0 (k div 6) (k mod 6) (k + 1)" by blast
    show ?thesis
      unfolding z by (simp add: zone_at_double_def computeCentroid_double_def Let_def)
  qed
  have exact: "computeCentroid_double (\<lambda>x. x) (coordinates z) =
          Some \<lparr>latitude = (latitude (coordinates z ! 0) + latitude (coordinates z ! 1)
                            + latitude (coordinates z ! 2) + latitude (coordinates z ! 3)) / 4,
                longitude = (longitude (coordinates z ! 0) + longitude (coordinates z ! 1)
                            + longitude (coordinates z ! 2) + longitude (coordinates z ! 3)) / 4\<rparr>
      \<and> computeCentroid_double (\<lambda>x. x) (coordinates z) =
          Some \<lparr>latitude = (latitude (coordinates z ! 0) + latitude (coordinates z ! 2)) / 2,
                longitude = (longitude (coordinates z ! 0) + longitude (coordinates z ! 2)) / 2\<rparr>"
    if "z \<in> set (generateZones_double (\<lambda>x. x) lat0 lon0)" for z
  proof -
    from generateZones_double_member [OF that] obtain k
      where z: "z = zone_at_double (\<lambda>x. x) lat0 lon0 (k div 6) (k mod 6) (k + 1)" by blast
    show ?thesis
      unfolding z
      by (simp add: zone_at_double_def computeCentroid_double_def Let_def field_simps)
  qed
  from general exact show ?thesis by blast
qed

theorem centroid_of_generated_zone_witness:
  "generateZones_double double 37 (-122) ! 3 \<in> set (generateZones_double double 37 (-122))
   \<and> computeCentroid_double double (coordinates (generateZones_double double 37 (-122) ! 3)) =
       Some \<lparr>latitude = 5212916568681349 / 140737488355328,
             longitude = - (8560357729212825 / 70368744177664)\<rparr>"
proof -
  have mem: "generateZones_double double 37 (-122) ! 3
      \<in> set (generateZones_double double 37 (-122))"
    by (rule nth_mem) (simp add: generateZones_double_length)
  from centroid_of_generated_zone [of double 37 "-122", THEN conjunct1, rule_format, OF mem]
  have "computeCentroid_double double (coordinates (generateZones_double double 37 (-122) ! 3)) =
       Some \<lparr>latitude = 5212916568681349 / 140737488355328,
             longitude = - (8560357729212825 / 70368744177664)\<rparr>"
    unfolding zone4_coordinates by (simp add: double_simps)
  with mem show ?thesis by simp
qed

text \<open>
  In double arithmetic the centroid is not always the centre. For the origin (37, -122)
  the fourth zone has the longitudes -121.7 and -121.6 and the centroid longitude
  -121.64999999999999; the mean of the two longitudes is neither in exact arithmetic nor
  as computed in doubles (-121.65) that number.
\<close>

theorem centroid_differs_from_centre:
  "computeCentroid_double double (coordinates (generateZones_double double 37 (-122) ! 3)) \<noteq>
       Some \<lparr>latitude =
               (latitude (coordinates (generateZones_double double 37 (-122) ! 3) ! 0)
                + latitude (coordinates (generateZones_double double 37 (-122) ! 3) ! 2)) / 2,
             longitude =
               (longitude (coordinates (generateZones_double double 37 (-122) ! 3) ! 0)
                + longitude (coordinates (generateZones_double double 37 (-122) ! 3) ! 2)) / 2\<rparr>
   \<and> computeCentroid_double double (coordinates (generateZones_double double 37 (-122) ! 3)) \<noteq>
       Some \<lparr>latitude = double (double
               (latitude (coordinates (generateZones_double double 37 (-122) ! 3) ! 0)
                + latitude (coordinates (generateZones_double double 37 (-122) ! 3) ! 2)) / 2),
             longitude = double (double
               (longitude (coordinates (generateZones_double double 37 (-122) ! 3) ! 0)
                + longitude (coordinates (generateZones_double double 37 (-122) ! 3) ! 2)) / 2)\<rparr>
   \<and> computeCentroid_double double (coordinates (generateZones_double double 37 (-122) ! 3)) =
       Some \<lparr>latitude = 5212916568681349 / 140737488355328,
             longitude = - (8560357729212825 / 70368744177664)\<rparr>
   \<and> (longitude (coordinates (generateZones_double double 37 (-122) ! 3) ! 0)
        + longitude (coordinates (generateZones_double double 37 (-122) ! 3) ! 2)) / 2
       = - (17120715458425651 / 140737488355328)
   \<and> double (double (longitude (coordinates (generateZones_double double 37 (-122) ! 3) ! 0)
        + longitude (coordinates (generateZones_double double 37 (-122) ! 3) ! 2)) / 2)
       = - (4280178864606413 / 35184372088832)"
  unfolding zone4_centroid
  unfolding zone4_coordinates
  by (simp add: double_simps)

section \<open>Absent temperature\<close>

text \<open>
  C8. For an absent temperature (\<open>null\<close>) both implementations return the neutral gray
  rgba(128,128,128,0.3); the gradient table is not consulted on this path.
\<close>

theorem absent_temperature_is_gray:
  "getTemperatureColor None = Rgba 128 128 128 0.3
   \<and> getTemperatureColor_sanjose None = Rgba 128 128 128 0.3
   \<and> fst (getTemperatureColor_traced None) = Ret_unknown"
  by (simp add: getTemperatureColor_def getTemperatureColor_traced_def
      getTemperatureColor_sanjose_def gray_def)

section \<open>The two implementations\<close>

text \<open>
  C9. The four-bucket function of the San Jose screen and the gradient-table function
  are not the same function: at 20 degrees the first returns rgba(255, 0, 0, 0.3) and the
  second rgba(255, 120, 0, 0.5).
\<close>

theorem implementations_differ:
  "getTemperatureColor_sanjose (Some 20) = Rgba 255 0 0 0.3
   \<and> getTemperatureColor (Some 20) = Rgba 255 120 0 0.5
   \<and> (\<exists>t. getTemperatureColor_sanjose (Some t) \<noteq> getTemperatureColor (Some t))
   \<and> getTemperatureColor_sanjose \<noteq> getTemperatureColor"
proof -
  have a: "getTemperatureColor_sanjose (Some 20) = Rgba 255 0 0 0.3"
    by (simp add: getTemperatureColor_sanjose_def)
  have b: "getTemperatureColor (Some 20) = Rgba 255 120 0 0.5"
    unfolding getTemperatureColor_def traced_at_20 by simp
  from a b have c: "getTemperatureColor_sanjose (Some 20) \<noteq> getTemperatureColor (Some 20)"
    by simp
  then have "\<exists>t. getTemperatureColor_sanjose (Some t) \<noteq> getTemperatureColor (Some t)" ..
  moreover from c have "getTemperatureColor_sanjose \<noteq> getTemperatureColor" by metis
  ultimately show ?thesis using a b by simp
qed

section \<open>The fallback branch\<close>


end
